theory Spec2Isabelle
  imports Main "HOL-Library.List_Lexorder" "HOL-Library.Char_ord"
begin

section \<open>The breakpoint table of the interpreter (libinterp/parse-tree/bp-table.cc)\<close>

text \<open>
  A shallow embedding of \<^verbatim>\<open>bp-table.cc\<close>. Every \<^verbatim>\<open>error (...)\<close> call of the
  file is a constructor of \<open>error\<close>; a function that can raise returns
  \<open>error + 'a\<close> together with the state it left behind, since the table is mutated in
  place and an exception does not undo what was already written.
\<close>

subsection \<open>Errors\<close>

datatype dbstop_args = dbstop_in | dbstop_at | dbstop_if | dbstop_none

datatype error =
    Usage
  | Cannot_Parse_Condition string
  | Condition_Nothing_To_Evaluate
  | Condition_Is_Assignment
  | Condition_Not_Expression
  | Missing_Argument dbstop_args
  | Too_Many_Function_Names string
  | Name_Must_Come_First
  | Only_One_At_Clause
  | Line_Must_Come_Before_If
  | Invalid_Argument_Type string
  | If_Arguments_Must_Be_Strings
  | Invalid_Condition string
  | Internal_Error_Set_Stop_Flag
  | ID_Must_Be_Single_String
  | Add_Breakpoint_Unable_To_Find string
  | Remove_Breakpoint_Unable_To_Find string
  | Remove_All_Unable_To_Find string
  | Wrong_Type_Argument
  | Dereferenced_End

subsection \<open>Values handed to the commands\<close>

text \<open>
  The class \<^verbatim>\<open>octave_value\<close> is declared outside this file. An argument is
  represented by what the accessors used in this file return for it:
  \<^verbatim>\<open>is_string ()\<close>, \<^verbatim>\<open>string_value ()\<close> (\<open>None\<close> when the conversion raises),
  \<^verbatim>\<open>isnumeric ()\<close>, \<^verbatim>\<open>array_value ()\<close> with every element already cast to
  \<^verbatim>\<open>int\<close>, and \<^verbatim>\<open>type_name ()\<close>.
\<close>

datatype octave_value = Octave_Value
  (is_string: bool)
  (string_value: "string option")
  (isnumeric: bool)
  (array_value: "int list")
  (type_name: string)

definition ov_string :: "string \<Rightarrow> octave_value" where
  "ov_string s = Octave_Value True (Some s) False [] ''string''"

definition ov_matrix :: "int list \<Rightarrow> octave_value" where
  "ov_matrix xs = Octave_Value False None True xs ''matrix''"

subsection \<open>Statements and routine bodies\<close>

text \<open>
  A statement as far as this file looks at it: its line, its expression (\<open>None\<close> for a
  command, so \<^verbatim>\<open>is_expression ()\<close> is \<open>expression s \<noteq> None\<close>), and the condition of
  the breakpoint set on it (\<open>None\<close>: no breakpoint).
\<close>

datatype tree_expression = Tree_Expression (is_assignment_expression: bool)

datatype tree_statement = Tree_Statement
  (line: int)
  (expression: "tree_expression option")
  (bp_cond: "string option")

type_synonym tree_statement_list = "tree_statement list"

text \<open>
  The expression parser is external: \<open>parser_run text\<close> is the pair of
  \<^verbatim>\<open>parser.run ()\<close> and \<^verbatim>\<open>parser.statement_list ()\<close> (a shared pointer that may be
  null, over statement pointers that may be null) for the given text.
\<close>

type_synonym parser = "string \<Rightarrow> int \<times> tree_statement option list option"

subsection \<open>The state\<close>

text \<open>
  The members of \<^verbatim>\<open>bp_table\<close>, the three flags of the error system that the table
  toggles, the global \<^verbatim>\<open>Vdebug_on_interrupt\<close>, and the store of statement lists:
  a routine holds a pointer to its body, and the breakpoints live in the list that the
  pointer addresses. \<^verbatim>\<open>std::set<std::string>\<close> is kept as a strictly sorted list for
  \<open>m_bp_set\<close>, which is iterated in order, and as a set for the three identifier sets.
\<close>

record bp_state =
  debug_on_error :: bool
  debug_on_caught :: bool
  debug_on_warning :: bool
  Vdebug_on_interrupt :: bool
  m_errors_that_stop :: "string set"
  m_caught_that_stop :: "string set"
  m_warnings_that_stop :: "string set"
  m_bp_set :: "string list"
  stmt_lists :: "nat \<Rightarrow> tree_statement_list"

text \<open>The \<^verbatim>\<open>std::set<std::string>&\<close> parameter of \<^verbatim>\<open>process_id_list\<close> refers to one of
  the three members.\<close>

datatype id_list_ref = Errors_That_Stop | Caught_That_Stop | Warnings_That_Stop

fun get_id_list :: "id_list_ref \<Rightarrow> bp_state \<Rightarrow> string set" where
  "get_id_list Errors_That_Stop st = m_errors_that_stop st"
| "get_id_list Caught_That_Stop st = m_caught_that_stop st"
| "get_id_list Warnings_That_Stop st = m_warnings_that_stop st"

fun put_id_list :: "id_list_ref \<Rightarrow> string set \<Rightarrow> bp_state \<Rightarrow> bp_state" where
  "put_id_list Errors_That_Stop s st = st\<lparr>m_errors_that_stop := s\<rparr>"
| "put_id_list Caught_That_Stop s st = st\<lparr>m_caught_that_stop := s\<rparr>"
| "put_id_list Warnings_That_Stop s st = st\<lparr>m_warnings_that_stop := s\<rparr>"

text \<open>The flag that belongs to an identifier set (used to state properties only).\<close>

fun stop_flag :: "id_list_ref \<Rightarrow> bp_state \<Rightarrow> bool" where
  "stop_flag Errors_That_Stop st = debug_on_error st"
| "stop_flag Caught_That_Stop st = debug_on_caught st"
| "stop_flag Warnings_That_Stop st = debug_on_warning st"

subsection \<open>\<^verbatim>\<open>bp_table::condition_valid\<close>\<close>

definition condition_valid :: "parser \<Rightarrow> string \<Rightarrow> error + bool" where
  "condition_valid parser_run cond =
     (if length cond > 0 then
        (case parser_run (cond @ '' ;'') of
           (parse_status, stmt_list) \<Rightarrow>
             if parse_status \<noteq> 0 then Inl (Cannot_Parse_Condition cond)
             else
               (case stmt_list of
                  None \<Rightarrow> Inl Condition_Nothing_To_Evaluate
                | Some l \<Rightarrow>
                    (case l of
                       [Some stmt] \<Rightarrow>
                         (case expression stmt of
                            Some expr \<Rightarrow>
                              if is_assignment_expression expr then Inl Condition_Is_Assignment
                              else Inr True
                          | None \<Rightarrow> Inl Condition_Not_Expression)
                     | _ \<Rightarrow> Inl Condition_Not_Expression)))
      else Inr True)"

subsection \<open>\<^verbatim>\<open>bp_table::set_stop_flag\<close> and \<^verbatim>\<open>bp_table::process_id_list\<close>\<close>

definition set_stop_flag :: "string \<Rightarrow> string \<Rightarrow> bool \<Rightarrow> bp_state \<Rightarrow> (error + unit) \<times> bp_state" where
  "set_stop_flag who condition on_off st =
     (if condition = ''error'' then (Inr (), st\<lparr>debug_on_error := on_off\<rparr>)
      else if condition = ''warning'' then (Inr (), st\<lparr>debug_on_warning := on_off\<rparr>)
      else if condition = ''caught'' then (Inr (), st\<lparr>debug_on_caught := on_off\<rparr>)
      else (Inl Internal_Error_Set_Stop_Flag, st))"

text \<open>\<open>pos\<close> is passed by reference: the new value is returned.\<close>

definition process_id_list ::
  "string \<Rightarrow> string \<Rightarrow> octave_value list \<Rightarrow> nat \<Rightarrow> nat \<Rightarrow> bool \<Rightarrow> id_list_ref \<Rightarrow> bp_state
     \<Rightarrow> (error + nat) \<times> bp_state" where
  "process_id_list who condition args nargin pos0 on_off id_list st =
     (let pos = pos0 + 1 in
      if nargin > pos then
        (if \<not> is_string (args ! pos) \<or> nargin > pos + 1 then
           (Inl ID_Must_Be_Single_String, st)
         else if on_off then
           (case string_value (args ! pos) of
              None \<Rightarrow> (Inl Wrong_Type_Argument, st)
            | Some s \<Rightarrow>
                (let st1 = put_id_list id_list (insert s (get_id_list id_list st)) st in
                 case set_stop_flag who condition True st1 of
                   (Inl e, st2) \<Rightarrow> (Inl e, st2)
                 | (Inr u, st2) \<Rightarrow> (Inr pos, st2)))
         else
           (case string_value (args ! pos) of
              None \<Rightarrow> (Inl Wrong_Type_Argument, st)
            | Some s \<Rightarrow>
                (let st1 = put_id_list id_list (get_id_list id_list st - {s}) st in
                 if get_id_list id_list st1 = {} then
                   (case set_stop_flag who condition False st1 of
                      (Inl e, st2) \<Rightarrow> (Inl e, st2)
                    | (Inr u, st2) \<Rightarrow> (Inr pos, st2))
                 else (Inr pos, st1))))
      else
        (let st1 = put_id_list id_list {} st in
         case set_stop_flag who condition on_off st1 of
           (Inl e, st2) \<Rightarrow> (Inl e, st2)
         | (Inr u, st2) \<Rightarrow>
             (Inr pos,
              if condition = ''error'' then st2\<lparr>Vdebug_on_interrupt := on_off\<rparr> else st2)))"

subsection \<open>Routines and \<^verbatim>\<open>find_fcn_by_line\<close>\<close>

text \<open>
  What this file reads of an \<^verbatim>\<open>octave_user_code\<close>: whether it is a function or a
  script, its names, the lines of a function, the pointer to its statement list
  (\<open>None\<close> is the null pointer, \<open>Some h\<close> addresses \<open>stmt_lists st h\<close>), the names of
  its subfunctions in the order of the file, and its subfunction table. The table is a
  \<^verbatim>\<open>std::map\<close> from names to values; it is kept as the list of its entries in the
  order in which the map is walked. A value of the table holds a routine
  (\<open>User_Fcn\<close>) or something else.
\<close>

datatype user_code = User_Code
  (is_user_function: bool)
  (fcn_name: string)
  (fcn_file_name: string)
  (beginning_line: int)
  (ending_line: int)
  (body: "nat option")
  (subfunction_names: "string list")
  (subfunctions: "(string \<times> fcn_value) list")
and fcn_value = User_Fcn user_code | Not_User_Code

text \<open>\<^verbatim>\<open>std::numeric_limits<int>::max ()\<close> for the 32-bit \<^verbatim>\<open>int\<close>.\<close>

definition INT_MAX :: int where "INT_MAX = 2147483647"

text \<open>
  \<^verbatim>\<open>find_fcn_by_line (main_fcn, lineno, end_line)\<close>. The optional pointer
  \<^verbatim>\<open>end_line\<close> is an \<open>int option\<close> that is passed in and returned. The loop over the
  subfunction table is \<open>find_fcn_loop\<close>; it carries \<^verbatim>\<open>retval\<close>, \<^verbatim>\<open>next_fcn\<close>
  and \<^verbatim>\<open>earliest_end\<close>. An entry counts when \<^verbatim>\<open>is_user_function ()\<close> holds
  of its value.
\<close>

function (sequential) find_fcn_by_line ::
  "user_code \<Rightarrow> int \<Rightarrow> int option \<Rightarrow> user_code option \<times> int option"
and find_fcn_loop ::
  "(string \<times> fcn_value) list \<Rightarrow> int \<Rightarrow> user_code option \<times> user_code option \<times> int
     \<Rightarrow> user_code option \<times> user_code option \<times> int"
where
  "find_fcn_by_line main_fcn lineno end_line =
     (case find_fcn_loop (subfunctions main_fcn) lineno (None, None, INT_MAX) of
        (retval, next_fcn, earliest_end) \<Rightarrow>
          (let retval2 =
             (if is_user_function main_fcn then
                (let e = ending_line main_fcn;
                     retval1 = (if e \<ge> lineno \<and> e < earliest_end then Some main_fcn else retval)
                 in (if retval1 = None then next_fcn else retval1))
              else (if retval = None then Some main_fcn else retval))
           in (retval2,
               (case end_line of
                  None \<Rightarrow> None
                | Some el \<Rightarrow> if earliest_end < el then Some earliest_end else Some el))))"
| "find_fcn_loop [] lineno acc = acc"
| "find_fcn_loop ((nm, v) # rest) lineno (retval, next_fcn, earliest_end) =
     (case v of
        Not_User_Code \<Rightarrow> find_fcn_loop rest lineno (retval, next_fcn, earliest_end)
      | User_Fcn dbg_subfcn \<Rightarrow>
          if is_user_function dbg_subfcn then
            (let (retval1, earliest_end1) =
               (if ending_line dbg_subfcn < earliest_end \<and> ending_line dbg_subfcn \<ge> lineno
                   \<and> beginning_line dbg_subfcn \<le> lineno
                then (case find_fcn_by_line dbg_subfcn lineno (Some (ending_line dbg_subfcn)) of
                        (r, Some el) \<Rightarrow> (r, el)
                      | (r, None) \<Rightarrow> (r, ending_line dbg_subfcn))
                else (retval, earliest_end));
                 next_fcn1 = (if beginning_line dbg_subfcn \<ge> lineno \<and> next_fcn = None
                              then Some dbg_subfcn else next_fcn)
             in find_fcn_loop rest lineno (retval1, next_fcn1, earliest_end1))
          else find_fcn_loop rest lineno (retval, next_fcn, earliest_end))"
  by pat_completeness auto
termination
  by (relation "measure (\<lambda>x. case x of Inl (m, l, e) \<Rightarrow> size m
                                    | Inr (xs, l, a) \<Rightarrow> size_list (size_prod (\<lambda>n. 0) size) xs)")
     (auto, case_tac main_fcn, auto)

subsection \<open>Containers\<close>

text \<open>
  \<^verbatim>\<open>bp_table::intmap\<close> is a \<^verbatim>\<open>std::map<int, int>\<close>: the list of its entries, in
  key order. \<open>map_of m k\<close> is \<^verbatim>\<open>m.find (k)\<close>, \<open>length m\<close> is \<^verbatim>\<open>m.size ()\<close>,
  \<open>intmap_assign\<close> is \<^verbatim>\<open>m[k] = v\<close> and \<open>intmap_insert\<close> is \<^verbatim>\<open>m.insert\<close>, which
  keeps an entry that is already there.
\<close>

type_synonym intmap = "(int \<times> int) list"

fun intmap_assign :: "int \<Rightarrow> int \<Rightarrow> intmap \<Rightarrow> intmap" where
  "intmap_assign k v [] = [(k, v)]"
| "intmap_assign k v ((k', v') # m) =
     (if k < k' then (k, v) # (k', v') # m
      else if k = k' then (k, v) # m
      else (k', v') # intmap_assign k v m)"

definition intmap_insert :: "int \<Rightarrow> int \<Rightarrow> intmap \<Rightarrow> intmap" where
  "intmap_insert k v m = (if map_of m k = None then intmap_assign k v m else m)"

text \<open>
  \<open>m_bp_set\<close>, a \<^verbatim>\<open>std::set<std::string>\<close>, as the sorted list of its elements. An
  iterator is the element it points to, \<open>None\<close> for \<^verbatim>\<open>cend ()\<close>; \<open>set_next\<close> is
  \<^verbatim>\<open>++it\<close>, the first element behind the one pointed to.
\<close>

definition set_insert :: "string \<Rightarrow> string list \<Rightarrow> string list" where
  "set_insert x xs = (if x \<in> set xs then xs else insort x xs)"

definition set_erase :: "string \<Rightarrow> string list \<Rightarrow> string list" where
  "set_erase x xs = removeAll x xs"

definition set_begin :: "string list \<Rightarrow> string option" where
  "set_begin xs = (case xs of [] \<Rightarrow> None | x # rest \<Rightarrow> Some x)"

definition set_next :: "string list \<Rightarrow> string \<Rightarrow> string option" where
  "set_next xs x = find (\<lambda>y. x < y) xs"

subsection \<open>The body of a routine\<close>

text \<open>
  Modelled from the spec: the operations of \<^verbatim>\<open>tree_statement_list\<close> (the
  RoutineBodyStore of the specification), whose code is in another file. The
  specification gives them as: insert (file, requested lines, condition), which returns
  the actual line per index, \<open>0\<close> when there is none, and may snap a breakpoint forward
  to the nearest executable line; delete (line); list (), the current lines; and
  remove all (file), which returns the removed entries. \<open>set_breakpoint\<close> puts the
  breakpoint on the first statement at or behind the requested line.
\<close>

fun set_breakpoint :: "int \<Rightarrow> string \<Rightarrow> tree_statement_list \<Rightarrow> int \<times> tree_statement_list" where
  "set_breakpoint l c [] = (0, [])"
| "set_breakpoint l c (s # ss) =
     (if l \<le> line s then (line s, Tree_Statement (line s) (expression s) (Some c) # ss)
      else (case set_breakpoint l c ss of (a, ss') \<Rightarrow> (a, s # ss')))"

text \<open>Modelled from the spec: delete (line) of the RoutineBodyStore.\<close>

definition delete_breakpoint :: "int \<Rightarrow> tree_statement_list \<Rightarrow> tree_statement_list" where
  "delete_breakpoint l ss =
     map (\<lambda>s. if line s = l then Tree_Statement (line s) (expression s) None else s) ss"

text \<open>Modelled from the spec: list () of the RoutineBodyStore, the current lines.\<close>

definition list_breakpoints :: "tree_statement_list \<Rightarrow> int list" where
  "list_breakpoints ss = map line (filter (\<lambda>s. bp_cond s \<noteq> None) ss)"

text \<open>Modelled from the spec: insert (file, requested lines, condition) of the
  RoutineBodyStore, the actual line per index.\<close>

fun tsl_add_breakpoint ::
  "intmap \<Rightarrow> string \<Rightarrow> tree_statement_list \<Rightarrow> intmap \<times> tree_statement_list" where
  "tsl_add_breakpoint [] c ss = ([], ss)"
| "tsl_add_breakpoint ((i, l) # rest) c ss =
     (case set_breakpoint l c ss of
        (a, ss1) \<Rightarrow>
          (case tsl_add_breakpoint rest c ss1 of (m, ss2) \<Rightarrow> ((i, a) # m, ss2)))"

text \<open>Modelled from the spec: remove all (file) of the RoutineBodyStore, the removed
  entries.\<close>

definition tsl_remove_all_breakpoints :: "tree_statement_list \<Rightarrow> intmap \<times> tree_statement_list" where
  "tsl_remove_all_breakpoints ss =
     (zip (map int [0..<length (list_breakpoints ss)]) (list_breakpoints ss),
      map (\<lambda>s. Tree_Statement (line s) (expression s) None) ss)"

subsection \<open>\<^verbatim>\<open>bp_table::add_breakpoint_1\<close> and \<^verbatim>\<open>bp_table::add_breakpoint\<close>\<close>

text \<open>
  The event manager is told of every change and has no part in the table; the
  evaluator's \<^verbatim>\<open>reset_debug_state\<close> touches nothing that this file reads. Both are
  left out. The parameter \<^verbatim>\<open>line\<close> of the source is called \<open>lines\<close> here.

  \<open>normalized_name\<close> is the name up to the first \<^verbatim>\<open>'>'\<close>, as
  \<^verbatim>\<open>add_breakpoint_1\<close> computes it with \<^verbatim>\<open>strchr\<close>; \<open>add_breakpoint_1_loop\<close> is
  its loop over \<^verbatim>\<open>retval\<close>, left at the first entry that is not \<open>0\<close>.
\<close>

definition normalized_name :: "string \<Rightarrow> string" where
  "normalized_name fname =
     (if CHR ''>'' \<in> set fname then takeWhile (\<lambda>c. c \<noteq> CHR ''>'') fname else fname)"

fun add_breakpoint_1_loop :: "string \<Rightarrow> intmap \<Rightarrow> string list \<Rightarrow> bool \<times> string list" where
  "add_breakpoint_1_loop fname [] bp_set = (False, bp_set)"
| "add_breakpoint_1_loop fname ((idx, ln) # rest) bp_set =
     (if ln \<noteq> 0 then (True, set_insert (normalized_name fname) bp_set)
      else add_breakpoint_1_loop fname rest bp_set)"

definition add_breakpoint_1 ::
  "user_code \<Rightarrow> string \<Rightarrow> intmap \<Rightarrow> string \<Rightarrow> intmap \<Rightarrow> bp_state \<Rightarrow> bool \<times> intmap \<times> bp_state" where
  "add_breakpoint_1 fcn fname lines condition retval0 st =
     (case body fcn of
        None \<Rightarrow> (False, retval0, st)
      | Some cmds \<Rightarrow>
          (case tsl_add_breakpoint lines condition (stmt_lists st cmds) of
             (retval, ss) \<Rightarrow>
               (case add_breakpoint_1_loop fname retval (m_bp_set st) of
                  (found, bp_set) \<Rightarrow>
                    (found, retval,
                     st\<lparr>stmt_lists := (stmt_lists st)(cmds := ss), m_bp_set := bp_set\<rparr>))))"

text \<open>
  \<^verbatim>\<open>tree_evaluator::get_user_code (fname, class_name)\<close> is external: a parameter. The
  class name defaults to the empty string.

  In the loop of \<^verbatim>\<open>add_breakpoint\<close>, \<^verbatim>\<open>ret_one.find (i)->second\<close> is read without a
  test; \<open>Dereferenced_End\<close> stands for the case that there is no such entry.
\<close>

type_synonym resolver = "string \<Rightarrow> string \<Rightarrow> user_code option"

text \<open>The loop \<^verbatim>\<open>for (int i = 0; i < len; i++)\<close> of \<^verbatim>\<open>add_breakpoint\<close>, from \<open>i\<close> on.\<close>

function add_breakpoint_loop ::
  "user_code \<Rightarrow> string \<Rightarrow> intmap \<Rightarrow> string \<Rightarrow> int \<Rightarrow> int \<Rightarrow> intmap \<Rightarrow> bp_state
     \<Rightarrow> (error + intmap) \<times> bp_state" where
  "add_breakpoint_loop main_fcn fname lines condition len i retval st =
     (if i < len then
        (case map_of lines i of
           None \<Rightarrow> add_breakpoint_loop main_fcn fname lines condition len (i + 1) retval st
         | Some lineno \<Rightarrow>
             (case fst (find_fcn_by_line main_fcn lineno None) of
                None \<Rightarrow> add_breakpoint_loop main_fcn fname lines condition len (i + 1) retval st
              | Some dbg_fcn \<Rightarrow>
                  (case add_breakpoint_1 dbg_fcn fname lines condition [] st of
                     (found, ret_one, st1) \<Rightarrow>
                       if found then
                         (case map_of ret_one i of
                            None \<Rightarrow> (Inl Dereferenced_End, st1)
                          | Some a \<Rightarrow>
                              add_breakpoint_loop main_fcn fname lines condition len (i + 1)
                                (intmap_insert i a retval) st1)
                       else
                         add_breakpoint_loop main_fcn fname lines condition len (i + 1)
                           retval st1)))
      else (Inr retval, st))"
  by pat_completeness auto
termination
  by (relation "measure (\<lambda>(main_fcn, fname, lines, condition, len, i, retval, st). nat (len - i))")
     auto

definition add_breakpoint ::
  "resolver \<Rightarrow> parser \<Rightarrow> string \<Rightarrow> string \<Rightarrow> intmap \<Rightarrow> string \<Rightarrow> bp_state
     \<Rightarrow> (error + intmap) \<times> bp_state" where
  "add_breakpoint get_user_code parser_run fname class_name lines condition st =
     (case get_user_code fname class_name of
        None \<Rightarrow> (Inl (Add_Breakpoint_Unable_To_Find fname), st)
      | Some main_fcn \<Rightarrow>
          (case condition_valid parser_run condition of
             Inl e \<Rightarrow> (Inl e, st)
           | Inr ok \<Rightarrow>
               add_breakpoint_loop main_fcn fname lines condition (int (length lines)) 0 [] st))"

subsection \<open>\<^verbatim>\<open>bp_table::remove_breakpoint_1\<close> and \<^verbatim>\<open>bp_table::remove_breakpoint\<close>\<close>

text \<open>The loop of \<^verbatim>\<open>remove_breakpoint_1\<close> that deletes the requested lines, from \<open>i\<close> on,
  and the function: its value is \<^verbatim>\<open>results.length ()\<close> of the list that was read last.\<close>

function remove_breakpoint_1_loop ::
  "intmap \<Rightarrow> int \<Rightarrow> int \<Rightarrow> tree_statement_list \<Rightarrow> tree_statement_list" where
  "remove_breakpoint_1_loop lines len i ss =
     (if i < len then
        (case map_of lines i of
           None \<Rightarrow> remove_breakpoint_1_loop lines len (i + 1) ss
         | Some lineno \<Rightarrow> remove_breakpoint_1_loop lines len (i + 1) (delete_breakpoint lineno ss))
      else ss)"
  by pat_completeness auto
termination
  by (relation "measure (\<lambda>(lines, len, i, ss). nat (len - i))") auto

definition remove_breakpoint_1 :: "user_code \<Rightarrow> string \<Rightarrow> intmap \<Rightarrow> bp_state \<Rightarrow> int \<times> bp_state" where
  "remove_breakpoint_1 fcn fname lines st =
     (case body fcn of
        None \<Rightarrow> (0, st)
      | Some cmds \<Rightarrow>
          (let results = list_breakpoints (stmt_lists st cmds) in
           if length results > 0 then
             (let ss = remove_breakpoint_1_loop lines (int (length lines)) 0 (stmt_lists st cmds);
                  st1 = st\<lparr>stmt_lists := (stmt_lists st)(cmds := ss)\<rparr>;
                  results1 = list_breakpoints ss;
                  st2 = (if results1 = [] \<and> fname \<in> set (m_bp_set st1)
                         then st1\<lparr>m_bp_set := set_erase fname (m_bp_set st1)\<rparr> else st1)
              in (int (length results1), st2))
           else (int (length results), st)))"

text \<open>\<^verbatim>\<open>bp_table::remove_all_breakpoints_in_file (fname, silent)\<close>.\<close>

definition remove_all_breakpoints_in_file ::
  "resolver \<Rightarrow> string \<Rightarrow> bool \<Rightarrow> bp_state \<Rightarrow> (error + intmap) \<times> bp_state" where
  "remove_all_breakpoints_in_file get_user_code fname silent st =
     (case get_user_code fname '''' of
        Some dbg_fcn \<Rightarrow>
          (case body dbg_fcn of
             Some cmds \<Rightarrow>
               (case tsl_remove_all_breakpoints (stmt_lists st cmds) of
                  (retval, ss) \<Rightarrow>
                    (let st1 = st\<lparr>stmt_lists := (stmt_lists st)(cmds := ss)\<rparr> in
                     (Inr retval,
                      if fname \<in> set (m_bp_set st1)
                      then st1\<lparr>m_bp_set := set_erase fname (m_bp_set st1)\<rparr> else st1)))
           | None \<Rightarrow> (Inr [], st))
      | None \<Rightarrow>
          if \<not> silent then (Inl (Remove_All_Unable_To_Find fname), st) else (Inr [], st))"

text \<open>
  The loop of \<^verbatim>\<open>remove_breakpoint\<close> over \<^verbatim>\<open>subfunction_names ()\<close>, in the order of the
  file. \<^verbatim>\<open>user_code_value ()\<close> raises for a value that holds no routine.
\<close>

fun remove_breakpoint_subfcns ::
  "string list \<Rightarrow> (string \<times> fcn_value) list \<Rightarrow> string \<Rightarrow> intmap \<Rightarrow> int \<Rightarrow> bp_state
     \<Rightarrow> (error + int) \<times> bp_state" where
  "remove_breakpoint_subfcns [] subfcns fname lines retval st = (Inr retval, st)"
| "remove_breakpoint_subfcns (subf_nm # rest) subfcns fname lines retval st =
     (case map_of subfcns subf_nm of
        None \<Rightarrow> remove_breakpoint_subfcns rest subfcns fname lines retval st
      | Some Not_User_Code \<Rightarrow> (Inl Wrong_Type_Argument, st)
      | Some (User_Fcn dbg_subfcn) \<Rightarrow>
          (case remove_breakpoint_1 dbg_subfcn fname lines st of
             (n, st1) \<Rightarrow> remove_breakpoint_subfcns rest subfcns fname lines (retval + n) st1))"

definition remove_breakpoint ::
  "resolver \<Rightarrow> string \<Rightarrow> intmap \<Rightarrow> bp_state \<Rightarrow> (error + int) \<times> bp_state" where
  "remove_breakpoint get_user_code fname lines st =
     (if length lines = 0 then
        (case remove_all_breakpoints_in_file get_user_code fname False st of
           (Inl e, st1) \<Rightarrow> (Inl e, st1)
         | (Inr results, st1) \<Rightarrow> (Inr (int (length results)), st1))
      else
        (case get_user_code fname '''' of
           None \<Rightarrow> (Inl (Remove_Breakpoint_Unable_To_Find fname), st)
         | Some dbg_fcn \<Rightarrow>
             (case remove_breakpoint_1 dbg_fcn fname lines st of
                (retval, st1) \<Rightarrow>
                  remove_breakpoint_subfcns (subfunction_names dbg_fcn) (subfunctions dbg_fcn)
                    fname lines retval st1)))"

subsection \<open>\<^verbatim>\<open>bp_table::remove_all_breakpoints\<close>\<close>

text \<open>
  The loop keeps two iterators: \<^verbatim>\<open>it_next\<close> is moved on before the call that may erase
  the element under \<^verbatim>\<open>it\<close>. The set only shrinks during the walk, and the elements
  behind the iterator become fewer with every step: that is the measure of the
  termination proof.
\<close>

function remove_all_breakpoints_loop ::
  "resolver \<Rightarrow> string option \<Rightarrow> bp_state \<Rightarrow> (error + unit) \<times> bp_state" where
  "remove_all_breakpoints_loop get_user_code it st =
     (case it of
        None \<Rightarrow> (Inr (), st)
      | Some fname \<Rightarrow>
          (let it_next = set_next (m_bp_set st) fname in
           case remove_all_breakpoints_in_file get_user_code fname False st of
             (Inl e, st1) \<Rightarrow> (Inl e, st1)
           | (Inr removed, st1) \<Rightarrow> remove_all_breakpoints_loop get_user_code it_next st1))"
  by pat_completeness auto
termination
proof (relation "measure (\<lambda>(get_user_code, it, st).
          case it of None \<Rightarrow> 0 | Some f \<Rightarrow> Suc (length (filter (\<lambda>y. f < y) (m_bp_set st))))",
       goal_cases)
  case 1
  show ?case by simp
next
  case (2 get_user_code it st fname it_next res st1 removed)
  have sub: "m_bp_set st1 = m_bp_set st \<or> m_bp_set st1 = removeAll fname (m_bp_set st)"
    using 2(3) [symmetric] 2(4)
    by (auto simp: remove_all_breakpoints_in_file_def tsl_remove_all_breakpoints_def set_erase_def
          Let_def split: option.splits if_splits)
  show ?case
  proof (cases it_next)
    case None
    then show ?thesis using 2(1) by simp
  next
    case (Some g)
    with 2(2) have "find (\<lambda>y. fname < y) (m_bp_set st) = Some g"
      by (simp add: set_next_def)
    then have g: "fname < g" "g \<in> set (m_bp_set st)"
      by (auto simp: find_Some_iff)
    have "filter (\<lambda>y. g < y) (removeAll fname (m_bp_set st))
        = filter (\<lambda>y. fname \<noteq> y) (filter (\<lambda>y. g < y) (m_bp_set st))"
      by (auto simp: removeAll_filter_not_eq intro!: filter_cong)
    then have "length (filter (\<lambda>y. g < y) (removeAll fname (m_bp_set st)))
        \<le> length (filter (\<lambda>y. g < y) (m_bp_set st))"
      by (metis length_filter_le)
    then have "length (filter (\<lambda>y. g < y) (m_bp_set st1))
        \<le> length (filter (\<lambda>y. g < y) (m_bp_set st))"
      using sub by auto
    also have "filter (\<lambda>y. g < y) (m_bp_set st)
        = filter (\<lambda>y. g < y) (filter (\<lambda>y. fname < y) (m_bp_set st))"
      using g(1) by (auto intro!: filter_cong)
    also have "length \<dots> < length (filter (\<lambda>y. fname < y) (m_bp_set st))"
      using g by (intro length_filter_less [of g]) auto
    finally show ?thesis using 2(1) Some by simp
  qed
qed

definition remove_all_breakpoints :: "resolver \<Rightarrow> bp_state \<Rightarrow> (error + unit) \<times> bp_state" where
  "remove_all_breakpoints get_user_code st =
     remove_all_breakpoints_loop get_user_code (set_begin (m_bp_set st)) st"

subsection \<open>\<^verbatim>\<open>bp_table::parse_dbfunction_params\<close>\<close>

text \<open>
  \<^verbatim>\<open>atoi\<close> of the C library: white space, an optional sign, decimal digits; \<open>0\<close> when no
  digit follows. The result is an \<^verbatim>\<open>int\<close> of 32 bits. C leaves the value undefined when
  the number does not fit; the model has what the GNU C library does where \<^verbatim>\<open>long\<close> has
  64 bits, \<^verbatim>\<open>(int) strtol (s, NULL, 10)\<close>: \<^verbatim>\<open>strtol\<close> stops at \<^verbatim>\<open>LONG_MIN\<close> and
  \<^verbatim>\<open>LONG_MAX\<close>, and the conversion to \<^verbatim>\<open>int\<close> keeps the low 32 bits.
\<close>

definition is_space :: "char \<Rightarrow> bool" where
  "is_space c = (c \<in> set [CHR '' '', CHR 0x09, CHR 0x0A, CHR 0x0B, CHR 0x0C, CHR 0x0D])"

definition is_digit :: "char \<Rightarrow> bool" where
  "is_digit c = (c \<in> set ''0123456789'')"

fun digits_value :: "int \<Rightarrow> string \<Rightarrow> int" where
  "digits_value acc [] = acc"
| "digits_value acc (c # cs) =
     (if is_digit c then digits_value (10 * acc + (of_char c - 48)) cs else acc)"

definition LONG_MAX :: int where "LONG_MAX = 9223372036854775807"

definition LONG_MIN :: int where "LONG_MIN = - 9223372036854775808"

definition strtol :: "string \<Rightarrow> int" where
  "strtol s =
     (case dropWhile is_space s of
        [] \<Rightarrow> 0
      | c # cs \<Rightarrow>
          (let v = (if c = CHR ''-'' then - digits_value 0 cs
                    else if c = CHR ''+'' then digits_value 0 cs
                    else digits_value 0 (c # cs))
           in if v < LONG_MIN then LONG_MIN else if LONG_MAX < v then LONG_MAX else v))"

definition int_of_long :: "int \<Rightarrow> int" where
  "int_of_long x = (x + 2147483648) mod 4294967296 - 2147483648"

definition atoi :: "string \<Rightarrow> int" where
  "atoi s = int_of_long (strtol s)"

text \<open>
  The variables of \<^verbatim>\<open>parse_dbfunction_params\<close>: the four results (\<^verbatim>\<open>cond\<close> is not
  initialised by the function and starts with the caller's value), \<^verbatim>\<open>list_idx\<close>, the
  three flags and \<^verbatim>\<open>pos\<close>.
\<close>

record parse_vars =
  p_func_name :: string
  p_class_name :: string
  p_lines :: intmap
  p_cond :: string
  p_list_idx :: int
  p_seen_in :: bool
  p_seen_at :: bool
  p_seen_if :: bool
  p_pos :: nat

text \<open>The head of the loop: the token at \<open>pos\<close> decides \<^verbatim>\<open>tok\<close>, and a keyword is
  skipped.\<close>

definition classify :: "octave_value list \<Rightarrow> nat \<Rightarrow> error + dbstop_args \<times> nat" where
  "classify args pos =
     (if is_string (args ! pos) then
        (case string_value (args ! pos) of
           None \<Rightarrow> Inl Wrong_Type_Argument
         | Some arg \<Rightarrow>
             if arg = ''in'' then Inr (dbstop_in, pos + 1)
             else if arg = ''at'' then Inr (dbstop_at, pos + 1)
             else if arg = ''if'' then Inr (dbstop_if, pos + 1)
             else if atoi arg > 0 then Inr (dbstop_at, pos)
             else Inr (dbstop_in, pos))
      else Inr (dbstop_at, pos))"

text \<open>\<^verbatim>\<open>case dbstop_in\<close>.\<close>

definition parse_in :: "octave_value list \<Rightarrow> nat \<Rightarrow> parse_vars \<Rightarrow> error + parse_vars" where
  "parse_in args pos v =
     (case string_value (args ! pos) of
        None \<Rightarrow> Inl Wrong_Type_Argument
      | Some name \<Rightarrow>
          if p_seen_in v then Inl (Too_Many_Function_Names name)
          else if p_seen_at v \<or> p_seen_if v then Inl Name_Must_Come_First
          else Inr (v\<lparr>p_func_name := name, p_seen_in := True, p_pos := pos + 1\<rparr>))"

text \<open>The loop of \<^verbatim>\<open>case dbstop_at\<close> that reads line numbers and arrays of line
  numbers; it returns the position where it stopped.\<close>

function read_lines ::
  "octave_value list \<Rightarrow> nat \<Rightarrow> intmap \<Rightarrow> int \<Rightarrow> error + nat \<times> intmap \<times> int" where
  "read_lines args pos lns list_idx =
     (if pos < length args then
        (if is_string (args ! pos) then
           (case string_value (args ! pos) of
              None \<Rightarrow> Inl Wrong_Type_Argument
            | Some s \<Rightarrow>
                if atoi s > 0
                then read_lines args (pos + 1) (intmap_assign list_idx (atoi s) lns) (list_idx + 1)
                else Inr (pos, lns, list_idx))
         else if isnumeric (args ! pos) then
           (case fold (\<lambda>x (m, j). (intmap_assign j x m, j + 1)) (array_value (args ! pos))
                   (lns, list_idx) of
              (lns1, list_idx1) \<Rightarrow> read_lines args (pos + 1) lns1 list_idx1)
         else Inl (Invalid_Argument_Type (type_name (args ! pos))))
      else Inr (pos, lns, list_idx))"
  by pat_completeness auto
termination
  by (relation "measure (\<lambda>(args, pos, lns, list_idx). length args - pos)") auto

declare read_lines.simps [simp del]

text \<open>
  \<^verbatim>\<open>case dbstop_at\<close>. The message of the first error is built from
  \<^verbatim>\<open>args(pos).string_value ()\<close>, which is evaluated first. The inner pair is the state
  before the lines are read; its first component says that the case was left through the
  \<^verbatim>\<open>break\<close> behind a method name. \<open>debug_fcn\<close> is the name of the routine in which the
  debugger stands.
\<close>

definition parse_at ::
  "octave_value list \<Rightarrow> bool \<Rightarrow> string \<Rightarrow> nat \<Rightarrow> parse_vars \<Rightarrow> error + parse_vars" where
  "parse_at args in_debug_repl debug_fcn pos v =
     (if p_seen_at v then
        (case string_value (args ! pos) of
           None \<Rightarrow> Inl Wrong_Type_Argument
         | Some s \<Rightarrow> Inl Only_One_At_Clause)
      else if p_seen_if v then Inl Line_Must_Come_Before_If
      else
        (let v1 = v\<lparr>p_seen_at := True\<rparr> in
         if p_seen_if v1 then Inl Line_Must_Come_Before_If
         else
           (case (if p_seen_in v1 then
                    (case string_value (args ! pos) of
                       None \<Rightarrow> Inl Wrong_Type_Argument
                     | Some arg \<Rightarrow>
                         if atoi arg = 0 then
                           Inr (True, v1\<lparr>p_class_name := p_func_name v1, p_func_name := arg,
                                         p_pos := pos + 1\<rparr>)
                         else Inr (False, v1))
                  else if in_debug_repl then
                    Inr (False, v1\<lparr>p_func_name := debug_fcn, p_seen_in := True\<rparr>)
                  else Inl Name_Must_Come_First) of
              Inl e \<Rightarrow> Inl e
            | Inr (True, v2) \<Rightarrow> Inr v2
            | Inr (False, v2) \<Rightarrow>
                (case read_lines args pos (p_lines v2) (p_list_idx v2) of
                   Inl e \<Rightarrow> Inl e
                 | Inr (pos1, lns, list_idx) \<Rightarrow>
                     Inr (v2\<lparr>p_lines := lns, p_list_idx := list_idx, p_pos := pos1\<rparr>)))))"

text \<open>\<^verbatim>\<open>case dbstop_if\<close>: the condition of a breakpoint is the rest of the arguments, each
  with a space before it, without the first space; or an event is switched. The build
  option \<^verbatim>\<open>DBSTOP_NANINF\<close> is not defined: \<^verbatim>\<open>naninf\<close> gives a warning only.\<close>

fun join_condition :: "octave_value list \<Rightarrow> string \<Rightarrow> error + string" where
  "join_condition [] acc = Inr acc"
| "join_condition (a # rest) acc =
     (if is_string a then
        (case string_value a of
           None \<Rightarrow> Inl Wrong_Type_Argument
         | Some s \<Rightarrow> join_condition rest (acc @ CHR '' '' # s))
      else Inl If_Arguments_Must_Be_Strings)"

definition parse_if ::
  "string \<Rightarrow> octave_value list \<Rightarrow> nat \<Rightarrow> parse_vars \<Rightarrow> bp_state \<Rightarrow> (error + parse_vars) \<times> bp_state" where
  "parse_if who args pos v st =
     (let nargin = length args in
      if p_seen_in v then
        (case join_condition (drop pos args) '''' of
           Inl e \<Rightarrow> (Inl e, st)
         | Inr c \<Rightarrow> (Inr (v\<lparr>p_cond := drop 1 c, p_pos := nargin\<rparr>), st))
      else
        (case string_value (args ! pos) of
           None \<Rightarrow> (Inl Wrong_Type_Argument, st)
         | Some condition \<Rightarrow>
             (let on_off = (who = ''dbstop'') in
              if condition = ''error'' then
                (case process_id_list who condition args nargin pos on_off Errors_That_Stop st of
                   (Inl e, st1) \<Rightarrow> (Inl e, st1)
                 | (Inr pos1, st1) \<Rightarrow> (Inr (v\<lparr>p_pos := nargin\<rparr>), st1))
              else if condition = ''warning'' then
                (case process_id_list who condition args nargin pos on_off Warnings_That_Stop st of
                   (Inl e, st1) \<Rightarrow> (Inl e, st1)
                 | (Inr pos1, st1) \<Rightarrow> (Inr (v\<lparr>p_pos := nargin\<rparr>), st1))
              else if condition = ''caught'' \<and> nargin > pos + 1
                      \<and> string_value (args ! (pos + 1)) = None then
                (Inl Wrong_Type_Argument, st)
              else if condition = ''caught'' \<and> nargin > pos + 1
                      \<and> string_value (args ! (pos + 1)) = Some ''error'' then
                (case process_id_list who condition args nargin (pos + 1) on_off
                        Caught_That_Stop st of
                   (Inl e, st1) \<Rightarrow> (Inl e, st1)
                 | (Inr pos1, st1) \<Rightarrow> (Inr (v\<lparr>p_pos := nargin\<rparr>), st1))
              else if condition = ''interrupt'' then
                (Inr (v\<lparr>p_pos := nargin\<rparr>), st\<lparr>Vdebug_on_interrupt := on_off\<rparr>)
              else if condition = ''naninf'' then (Inr (v\<lparr>p_pos := nargin\<rparr>), st)
              else (Inl (Invalid_Condition condition), st))))"

text \<open>
  The loop \<^verbatim>\<open>while (pos < nargin)\<close>. \<^verbatim>\<open>dbstop_none\<close> never occurs, as the source says;
  its case leaves the \<^verbatim>\<open>switch\<close> and the loop goes on. The loop ends because every pass
  moves \<open>pos\<close> on or sets \<open>seen_at\<close> for the first time.
\<close>

function parse_loop ::
  "string \<Rightarrow> octave_value list \<Rightarrow> bool \<Rightarrow> string \<Rightarrow> parse_vars \<Rightarrow> bp_state
     \<Rightarrow> (error + parse_vars) \<times> bp_state" where
  "parse_loop who args in_debug_repl debug_fcn v st =
     (if p_pos v < length args then
        (case classify args (p_pos v) of
           Inl e \<Rightarrow> (Inl e, st)
         | Inr (tok, pos) \<Rightarrow>
             if pos \<ge> length args then (Inl (Missing_Argument tok), st)
             else
               (case tok of
                  dbstop_in \<Rightarrow>
                    (case parse_in args pos v of
                       Inl e \<Rightarrow> (Inl e, st)
                     | Inr v1 \<Rightarrow> parse_loop who args in_debug_repl debug_fcn v1 st)
                | dbstop_at \<Rightarrow>
                    (case parse_at args in_debug_repl debug_fcn pos v of
                       Inl e \<Rightarrow> (Inl e, st)
                     | Inr v1 \<Rightarrow> parse_loop who args in_debug_repl debug_fcn v1 st)
                | dbstop_if \<Rightarrow>
                    (case parse_if who args pos v st of
                       (Inl e, st1) \<Rightarrow> (Inl e, st1)
                     | (Inr v1, st1) \<Rightarrow> parse_loop who args in_debug_repl debug_fcn v1 st1)
                | dbstop_none \<Rightarrow> parse_loop who args in_debug_repl debug_fcn v st))
      else (Inr v, st))"
  by pat_completeness auto
termination
proof (relation "measure (\<lambda>(who, args, in_debug_repl, debug_fcn, v, st).
          2 * (length args - p_pos v) + (if p_seen_at v then 0 else 1))", goal_cases)
  case 1
  show ?case by simp
next
  case (2 who args in_debug_repl debug_fcn v st x tok pos v1)
  then have "p_pos v \<le> pos" by (auto simp: classify_def split: if_splits option.splits)
  moreover from 2 have "p_pos v1 = pos + 1 \<and> p_seen_at v1 = p_seen_at v"
    by (auto simp: parse_in_def split: if_splits option.splits)
  ultimately show ?case using 2 by auto
next
  case (3 who args in_debug_repl debug_fcn v st x tok pos v1)
  then have le: "p_pos v \<le> pos" by (auto simp: classify_def split: if_splits option.splits)
  have rl: "read_lines args p lns idx = Inr (p1, lns1, idx1) \<Longrightarrow> p \<le> p1" for p lns idx p1 lns1 idx1
  proof (induction args p lns idx rule: read_lines.induct)
    case (1 args pos lns list_idx)
    show ?case
    proof (cases "pos < length args")
      case False
      with "1.prems" show ?thesis by (subst (asm) read_lines.simps) simp
    next
      case True
      note lt = this
      show ?thesis
      proof (cases "is_string (args ! pos)")
        case True
        with "1.prems" lt "1.IH"(1) show ?thesis
          by (subst (asm) read_lines.simps) (fastforce split: option.splits if_splits)
      next
        case False
        with "1.prems" lt "1.IH"(2) show ?thesis
          by (subst (asm) read_lines.simps) (fastforce split: prod.splits if_splits)
      qed
    qed
  qed
  from 3 have "\<not> p_seen_at v \<and> p_seen_at v1 \<and> pos \<le> p_pos v1"
    by (auto simp: parse_at_def Let_def dest: rl split: if_splits option.splits sum.splits bool.splits)
  then show ?case using 3 le by auto
next
  case (4 who args in_debug_repl debug_fcn v st x tok pos res st1 v1)
  then have "p_pos v1 = length args"
    by (auto simp: parse_if_def Let_def split: if_splits option.splits sum.splits prod.splits)
  then show ?case using 4 by auto
next
  case (5 who args in_debug_repl debug_fcn v st x tok pos)
  then show ?case by (auto simp: classify_def split: if_splits option.splits)
qed

text \<open>\<^verbatim>\<open>bp_table::parse_dbfunction_params (who, args, func_name, class_name, lines, cond)\<close>
  with the state of the debugger (\<^verbatim>\<open>in_debug_repl ()\<close> and the name of the routine) as
  parameters.\<close>

definition parse_dbfunction_params ::
  "string \<Rightarrow> octave_value list \<Rightarrow> bool \<Rightarrow> string \<Rightarrow> string \<Rightarrow> bp_state
     \<Rightarrow> (error + string \<times> string \<times> intmap \<times> string) \<times> bp_state" where
  "parse_dbfunction_params who args in_debug_repl debug_fcn cond0 st =
     (if length args = 0 \<or> \<not> is_string (args ! 0) then (Inl Usage, st)
      else
        (case parse_loop who args in_debug_repl debug_fcn
                \<lparr>p_func_name = '''', p_class_name = '''', p_lines = [], p_cond = cond0,
                 p_list_idx = 0, p_seen_in = False, p_seen_at = False, p_seen_if = False,
                 p_pos = 0\<rparr> st of
           (Inl e, st1) \<Rightarrow> (Inl e, st1)
         | (Inr v, st1) \<Rightarrow> (Inr (p_func_name v, p_class_name v, p_lines v, p_cond v), st1)))"

text \<open>A state to start from: nothing stops, no breakpoint, every body empty.\<close>

definition initial_state :: bp_state where
  "initial_state =
     \<lparr>debug_on_error = False, debug_on_caught = False, debug_on_warning = False,
      Vdebug_on_interrupt = False, m_errors_that_stop = {}, m_caught_that_stop = {},
      m_warnings_that_stop = {}, m_bp_set = [], stmt_lists = (\<lambda>h. [])\<rparr>"

text \<open>
  An example of what the external parser answers, for the conditions that the comment above
  \<^verbatim>\<open>condition_valid\<close> names: \<^verbatim>\<open>y=5\<close> is an assignment expression,
  \<^verbatim>\<open>y+=10\<close> and \<^verbatim>\<open>y++\<close> are expressions that
  \<^verbatim>\<open>is_assignment_expression\<close> does not flag, \<^verbatim>\<open>y==\<close> does not parse,
  \<^verbatim>\<open>a, b\<close> is two statements and \<^verbatim>\<open>if 1, end\<close> is a command.
\<close>

definition example_parser :: parser where
  "example_parser text =
     (if text = ''y=5 ;'' then (0, Some [Some (Tree_Statement 1 (Some (Tree_Expression True)) None)])
      else if text = ''y+=10 ;'' \<or> text = ''y++ ;'' then
        (0, Some [Some (Tree_Statement 1 (Some (Tree_Expression False)) None)])
      else if text = ''a, b ;'' then
        (0, Some [Some (Tree_Statement 1 (Some (Tree_Expression False)) None),
                  Some (Tree_Statement 1 (Some (Tree_Expression False)) None)])
      else if text = ''if 1, end ;'' then (0, Some [Some (Tree_Statement 1 None None)])
      else (1, None))"

subsection \<open>Notions used to state the properties of the line resolver\<close>

text \<open>
  The subroutines of a routine that the resolver looks at (\<open>kids\<close>), all routines of a
  file (\<open>routines\<close>), a line inside the range of a function (\<open>in_fcn\<close>), and the layout of
  a source file: ranges that do not overlap (\<open>apart\<close>), subroutines inside their parent on
  every level below the top (\<open>nested_ok\<close>), and the top level (\<open>top_ok\<close>), where a
  subfunction may also stand behind the top-level function.
\<close>

fun kids_of :: "(string \<times> fcn_value) list \<Rightarrow> user_code list" where
  "kids_of [] = []"
| "kids_of ((nm, Not_User_Code) # rest) = kids_of rest"
| "kids_of ((nm, User_Fcn f) # rest) = (if is_user_function f then f # kids_of rest else kids_of rest)"

definition kids :: "user_code \<Rightarrow> user_code list" where
  "kids f = kids_of (subfunctions f)"

definition in_fcn :: "user_code \<Rightarrow> int \<Rightarrow> bool" where
  "in_fcn f l = (beginning_line f \<le> l \<and> l \<le> ending_line f)"

definition apart :: "user_code \<Rightarrow> user_code \<Rightarrow> bool" where
  "apart f g = (ending_line f < beginning_line g \<or> ending_line g < beginning_line f)"

fun pairwise_apart :: "user_code list \<Rightarrow> bool" where
  "pairwise_apart [] = True"
| "pairwise_apart (f # fs) = (list_all (apart f) fs \<and> pairwise_apart fs)"

function routines :: "user_code \<Rightarrow> user_code list"
and routines_list :: "(string \<times> fcn_value) list \<Rightarrow> user_code list" where
  "routines f = f # routines_list (subfunctions f)"
| "routines_list [] = []"
| "routines_list ((nm, Not_User_Code) # rest) = routines_list rest"
| "routines_list ((nm, User_Fcn f) # rest) =
     (if is_user_function f then routines f @ routines_list rest else routines_list rest)"
  by pat_completeness auto
termination
  by (relation "measure (\<lambda>x. case x of Inl m \<Rightarrow> size m
                                    | Inr xs \<Rightarrow> size_list (size_prod (\<lambda>n. 0) size) xs)")
     (auto, case_tac f, auto)

function nested_ok :: "user_code \<Rightarrow> bool"
and nested_ok_list :: "int \<Rightarrow> int \<Rightarrow> (string \<times> fcn_value) list \<Rightarrow> bool" where
  "nested_ok f =
     (pairwise_apart (kids_of (subfunctions f))
      \<and> nested_ok_list (beginning_line f) (ending_line f) (subfunctions f))"
| "nested_ok_list b e [] = True"
| "nested_ok_list b e ((nm, Not_User_Code) # rest) = nested_ok_list b e rest"
| "nested_ok_list b e ((nm, User_Fcn f) # rest) =
     (if is_user_function f
      then b \<le> beginning_line f \<and> ending_line f \<le> e \<and> nested_ok f \<and> nested_ok_list b e rest
      else nested_ok_list b e rest)"
  by pat_completeness auto
termination
  by (relation "measure (\<lambda>x. case x of Inl m \<Rightarrow> size m
                                    | Inr (b, e, xs) \<Rightarrow> size_list (size_prod (\<lambda>n. 0) size) xs)")
     (auto, case_tac f, auto)

definition top_ok :: "user_code \<Rightarrow> bool" where
  "top_ok root =
     (pairwise_apart (kids root)
      \<and> list_all (\<lambda>c. nested_ok c \<and> ending_line c < INT_MAX
            \<and> (if is_user_function root
                then beginning_line root \<le> beginning_line c
                     \<and> (ending_line c \<le> ending_line root \<or> ending_line root < beginning_line c)
                else True)) (kids root)
      \<and> (if is_user_function root then ending_line root < INT_MAX else True))"

text \<open>\<open>innermost_in f l r\<close>: \<open>r\<close> is a function of the file \<open>f\<close> that contains line \<open>l\<close>, no
  function of the file that contains \<open>l\<close> ends before \<open>r\<close>, and no subroutine of \<open>r\<close>
  contains \<open>l\<close>.\<close>

definition innermost_in :: "user_code \<Rightarrow> int \<Rightarrow> user_code \<Rightarrow> bool" where
  "innermost_in f l r =
     (r \<in> set (routines f) \<and> is_user_function r \<and> in_fcn r l
      \<and> (\<forall>c\<in>set (routines f). is_user_function c \<and> in_fcn c l \<longrightarrow> ending_line r \<le> ending_line c)
      \<and> (\<forall>c\<in>set (kids r). \<not> in_fcn c l))"

text \<open>Files for the examples. The file of the function \<open>f\<close>, with the nested function
  \<open>a\<close>, which nests \<open>a1\<close>, and the subfunctions \<open>z\<close> and \<open>b\<close> behind it (the list of
  subfunction names holds the subfunctions, in the order of the file; the table of
  subfunctions is ordered by name). The file of the function \<open>g\<close>, with the subfunctions
  \<open>c\<close> and \<open>d\<close> behind it, whose names are in the order of the file. The file of the
  method \<open>m\<close> of a class. And a script.\<close>

definition example_a1 :: user_code where
  "example_a1 = User_Code True ''a1'' ''f.m'' 20 30 (Some 2) [] []"
definition example_a :: user_code where
  "example_a = User_Code True ''a'' ''f.m'' 10 50 (Some 1) [] [(''a1'', User_Fcn example_a1)]"
definition example_z :: user_code where
  "example_z = User_Code True ''z'' ''f.m'' 110 150 (Some 3) [] []"
definition example_b :: user_code where
  "example_b = User_Code True ''b'' ''f.m'' 160 200 (Some 4) [] []"
definition example_f :: user_code where
  "example_f = User_Code True ''f'' ''f.m'' 3 100 (Some 0) [''z'', ''b'']
     [(''a'', User_Fcn example_a), (''b'', User_Fcn example_b), (''z'', User_Fcn example_z)]"
definition example_c :: user_code where
  "example_c = User_Code True ''c'' ''g.m'' 110 150 (Some 7) [] []"
definition example_d :: user_code where
  "example_d = User_Code True ''d'' ''g.m'' 160 200 (Some 8) [] []"
definition example_g :: user_code where
  "example_g = User_Code True ''g'' ''g.m'' 3 100 (Some 6) [''c'', ''d'']
     [(''c'', User_Fcn example_c), (''d'', User_Fcn example_d)]"
definition example_m :: user_code where
  "example_m = User_Code True ''m'' ''@cls/m.m'' 1 10 (Some 9) [] []"

subsection \<open>Notions used to state the properties of the breakpoint operations\<close>

text \<open>\<open>extends st st'\<close>: from \<open>st\<close> to \<open>st'\<close> no statement list changed its lines and no
  breakpoint was taken away.\<close>

definition extends :: "bp_state \<Rightarrow> bp_state \<Rightarrow> bool" where
  "extends st st' =
     (\<forall>h. map line (stmt_lists st' h) = map line (stmt_lists st h)
          \<and> set (list_breakpoints (stmt_lists st h)) \<subseteq> set (list_breakpoints (stmt_lists st' h)))"

text \<open>
  The statements of the example files (the body of \<open>f\<close> is list 0, of \<open>a\<close> list 1, of
  \<open>a1\<close> list 2, of \<open>z\<close> list 3, of \<open>b\<close> list 4, of \<open>g\<close> list 6, of \<open>c\<close> list 7, of
  \<open>d\<close> list 8, of \<open>m\<close> list 9), a resolver that knows the files \<open>f\<close> and \<open>g\<close> and the
  method \<open>m\<close> of the class \<open>cls\<close>, and four states reached by \<^verbatim>\<open>add_breakpoint\<close>.
\<close>

definition example_stmt :: "int \<Rightarrow> tree_statement" where
  "example_stmt l = Tree_Statement l None None"

definition example_stmts :: "nat \<Rightarrow> tree_statement_list" where
  "example_stmts h =
     (if h = 0 then [example_stmt 4, example_stmt 5, example_stmt 8]
      else if h = 1 then [example_stmt 11, example_stmt 12]
      else if h = 2 then [example_stmt 21, example_stmt 25]
      else if h = 3 then [example_stmt 111, example_stmt 120]
      else if h = 4 then [example_stmt 161, example_stmt 170]
      else if h = 6 then [example_stmt 4, example_stmt 6]
      else if h = 7 then [example_stmt 111, example_stmt 112]
      else if h = 8 then [example_stmt 161, example_stmt 162]
      else if h = 9 then [example_stmt 2, example_stmt 3]
      else [])"

definition example_state :: bp_state where
  "example_state = initial_state\<lparr>stmt_lists := example_stmts\<rparr>"

definition example_resolver :: resolver where
  "example_resolver fname class_name =
     (if fname = ''f'' \<and> class_name = '''' then Some example_f
      else if fname = ''g'' \<and> class_name = '''' then Some example_g
      else if fname = ''m'' \<and> class_name = ''cls'' then Some example_m
      else None)"

definition example_script :: user_code where
  "example_script = User_Code False ''s'' ''s.m'' 0 0 (Some 5) [] []"

definition example_state_three :: bp_state where
  "example_state_three =
     snd (add_breakpoint example_resolver example_parser ''f'' '''' [(0, 4), (1, 5), (2, 8)] ''''
            example_state)"

definition example_state_sub :: bp_state where
  "example_state_sub =
     snd (add_breakpoint example_resolver example_parser ''f'' '''' [(0, 111), (1, 161)] ''''
            example_state)"

definition example_state_two :: bp_state where
  "example_state_two =
     snd (add_breakpoint example_resolver example_parser ''g'' '''' [(0, 6), (1, 111)] ''''
            (snd (add_breakpoint example_resolver example_parser ''f'' '''' [(0, 5)] ''''
                    example_state)))"

definition example_state_method :: bp_state where
  "example_state_method =
     snd (add_breakpoint example_resolver example_parser ''m'' ''cls'' [(0, 2)] ''''
            example_state)"

section \<open>Properties\<close>

subsection \<open>Event triggers\<close>

lemma set_stop_flag_cases:
  "set_stop_flag who ''error'' b st = (Inr (), st\<lparr>debug_on_error := b\<rparr>)"
  "set_stop_flag who ''warning'' b st = (Inr (), st\<lparr>debug_on_warning := b\<rparr>)"
  "set_stop_flag who ''caught'' b st = (Inr (), st\<lparr>debug_on_caught := b\<rparr>)"
  by (simp_all add: set_stop_flag_def)

text \<open>
  Claim C1, as the code has it. A call of \<^verbatim>\<open>process_id_list\<close> for the condition
  \<^verbatim>\<open>error\<close> with no identifier behind it (bulk form) succeeds and assigns the given
  \<open>on_off\<close> to \<^verbatim>\<open>Vdebug_on_interrupt\<close>: enabling sets the interrupt flag, and
  disabling clears it as well.
\<close>

theorem process_id_list_error_bulk_interrupt:
  assumes "nargin \<le> pos + 1"
  shows "fst (process_id_list who ''error'' args nargin pos on_off id_list st) = Inr (pos + 1)
       \<and> Vdebug_on_interrupt (snd (process_id_list who ''error'' args nargin pos on_off id_list st))
           = on_off"
  using assms by (simp add: process_id_list_def set_stop_flag_cases Let_def)

theorem process_id_list_error_bulk_interrupt_witness:
  "Vdebug_on_interrupt (snd (process_id_list ''dbstop'' ''error''
       [ov_string ''if'', ov_string ''error''] 2 1 True Errors_That_Stop initial_state))
   \<and> \<not> Vdebug_on_interrupt (snd (process_id_list ''dbclear'' ''error''
       [ov_string ''if'', ov_string ''error''] 2 1 False Errors_That_Stop
       (initial_state\<lparr>Vdebug_on_interrupt := True\<rparr>)))"
  using process_id_list_error_bulk_interrupt
          [of 2 1 "''dbstop''" "[ov_string ''if'', ov_string ''error'']" True Errors_That_Stop
              initial_state]
        process_id_list_error_bulk_interrupt
          [of 2 1 "''dbclear''" "[ov_string ''if'', ov_string ''error'']" False Errors_That_Stop
              "initial_state\<lparr>Vdebug_on_interrupt := True\<rparr>"]
  by simp

text \<open>
  Claim C1 as the specification words it fails: with the interrupt flag on,
  \<^verbatim>\<open>dbclear if error\<close> (bulk form, \<open>on_off = False\<close>) turns the interrupt flag off.
\<close>

theorem process_id_list_error_disable_counterexample:
  "Vdebug_on_interrupt (snd (process_id_list ''dbclear'' ''error''
       [ov_string ''if'', ov_string ''error''] 2 1 False Errors_That_Stop
       (initial_state\<lparr>Vdebug_on_interrupt := True\<rparr>)))
   \<noteq> Vdebug_on_interrupt (initial_state\<lparr>Vdebug_on_interrupt := True\<rparr>)"
  by (simp add: process_id_list_def set_stop_flag_cases Let_def)

text \<open>
  Claim C4. For each of the three identifier sets, called with the condition name that
  \<^verbatim>\<open>parse_dbfunction_params\<close> passes for it: one identifier with \<open>on_off\<close> true is
  inserted and the flag is on afterwards; one identifier with \<open>on_off\<close> false is erased,
  and the flag is switched off if the set is empty afterwards and keeps its value
  otherwise; no identifier clears the set and assigns \<open>on_off\<close> to the flag.
\<close>

theorem process_id_list_trigger_mutation:
  assumes "(condition, id_list) \<in> {(''error'', Errors_That_Stop),
             (''warning'', Warnings_That_Stop), (''caught'', Caught_That_Stop)}"
  shows "(nargin = pos + 2 \<and> is_string (args ! (pos + 1))
            \<and> string_value (args ! (pos + 1)) = Some s \<longrightarrow>
          process_id_list who condition args nargin pos True id_list st
            = (Inr (pos + 1), snd (process_id_list who condition args nargin pos True id_list st))
          \<and> get_id_list id_list (snd (process_id_list who condition args nargin pos True id_list st))
              = insert s (get_id_list id_list st)
          \<and> stop_flag id_list (snd (process_id_list who condition args nargin pos True id_list st)))
       \<and> (nargin = pos + 2 \<and> is_string (args ! (pos + 1))
            \<and> string_value (args ! (pos + 1)) = Some s \<longrightarrow>
          process_id_list who condition args nargin pos False id_list st
            = (Inr (pos + 1), snd (process_id_list who condition args nargin pos False id_list st))
          \<and> get_id_list id_list (snd (process_id_list who condition args nargin pos False id_list st))
              = get_id_list id_list st - {s}
          \<and> stop_flag id_list (snd (process_id_list who condition args nargin pos False id_list st))
              = (stop_flag id_list st \<and> get_id_list id_list st - {s} \<noteq> {}))
       \<and> (nargin \<le> pos + 1 \<longrightarrow>
          process_id_list who condition args nargin pos on_off id_list st
            = (Inr (pos + 1), snd (process_id_list who condition args nargin pos on_off id_list st))
          \<and> get_id_list id_list (snd (process_id_list who condition args nargin pos on_off id_list st))
              = {}
          \<and> stop_flag id_list (snd (process_id_list who condition args nargin pos on_off id_list st))
              = on_off)"
  using assms
  by (auto simp add: process_id_list_def set_stop_flag_cases Let_def)

theorem process_id_list_trigger_mutation_witness:
  "m_warnings_that_stop (snd (process_id_list ''dbstop'' ''warning''
       [ov_string ''if'', ov_string ''warning'', ov_string ''X:y''] 3 1 True Warnings_That_Stop
       initial_state)) = {''X:y''}
   \<and> debug_on_warning (snd (process_id_list ''dbstop'' ''warning''
       [ov_string ''if'', ov_string ''warning'', ov_string ''X:y''] 3 1 True Warnings_That_Stop
       initial_state))
   \<and> m_warnings_that_stop (snd (process_id_list ''dbclear'' ''warning''
       [ov_string ''if'', ov_string ''warning'', ov_string ''X:y''] 3 1 False Warnings_That_Stop
       (initial_state\<lparr>debug_on_warning := True, m_warnings_that_stop := {''X:y''}\<rparr>))) = {}
   \<and> \<not> debug_on_warning (snd (process_id_list ''dbclear'' ''warning''
       [ov_string ''if'', ov_string ''warning'', ov_string ''X:y''] 3 1 False Warnings_That_Stop
       (initial_state\<lparr>debug_on_warning := True, m_warnings_that_stop := {''X:y''}\<rparr>)))
   \<and> m_warnings_that_stop (snd (process_id_list ''dbstop'' ''warning''
       [ov_string ''if'', ov_string ''warning''] 2 1 True Warnings_That_Stop
       (initial_state\<lparr>m_warnings_that_stop := {''X:y''}\<rparr>))) = {}
   \<and> debug_on_warning (snd (process_id_list ''dbstop'' ''warning''
       [ov_string ''if'', ov_string ''warning''] 2 1 True Warnings_That_Stop
       (initial_state\<lparr>m_warnings_that_stop := {''X:y''}\<rparr>)))"
  using process_id_list_trigger_mutation
          [of "''warning''" Warnings_That_Stop 3 1
              "[ov_string ''if'', ov_string ''warning'', ov_string ''X:y'']" "''X:y''"
              "''dbstop''" initial_state]
        process_id_list_trigger_mutation
          [of "''warning''" Warnings_That_Stop 3 1
              "[ov_string ''if'', ov_string ''warning'', ov_string ''X:y'']" "''X:y''"
              "''dbclear''"
              "initial_state\<lparr>debug_on_warning := True, m_warnings_that_stop := {''X:y''}\<rparr>"]
        process_id_list_trigger_mutation
          [of "''warning''" Warnings_That_Stop 2 1
              "[ov_string ''if'', ov_string ''warning'']" "''X:y''"
              "''dbstop''" "initial_state\<lparr>m_warnings_that_stop := {''X:y''}\<rparr>" True]
  by (simp add: ov_string_def initial_state_def)

subsection \<open>Conditions of breakpoints\<close>

text \<open>
  Claim C8. Whatever the external parser is: the empty condition is valid, and the parser's
  answer is not looked at. For a condition that is not empty, what the parser answers for
  the condition followed by \<^verbatim>\<open>" ;"\<close> decides: a single expression statement is rejected
  with \<open>Condition_Is_Assignment\<close> (the message that asks "Did you mean '=='?") when
  \<^verbatim>\<open>is_assignment_expression\<close> flags it and is accepted otherwise, as for
  \<^verbatim>\<open>y+=10\<close> and \<^verbatim>\<open>y++\<close>; a parse failure, a list that is not of length one and a
  statement that is not an expression are errors.
\<close>

theorem condition_valid_cases:
  "condition_valid p '''' = Inr True
   \<and> (cond \<noteq> [] \<longrightarrow>
        (\<forall>stmt e. p (cond @ '' ;'') = (0, Some [Some stmt]) \<and> expression stmt = Some e \<longrightarrow>
           condition_valid p cond
             = (if is_assignment_expression e then Inl Condition_Is_Assignment else Inr True))
      \<and> (\<forall>n l. p (cond @ '' ;'') = (n, l) \<and> n \<noteq> 0 \<longrightarrow>
           condition_valid p cond = Inl (Cannot_Parse_Condition cond))
      \<and> (\<forall>l. p (cond @ '' ;'') = (0, Some l) \<and> length l \<noteq> 1 \<longrightarrow>
           condition_valid p cond = Inl Condition_Not_Expression)
      \<and> (\<forall>stmt. p (cond @ '' ;'') = (0, Some [Some stmt]) \<and> expression stmt = None \<longrightarrow>
           condition_valid p cond = Inl Condition_Not_Expression))"
  by (auto simp add: condition_valid_def split: list.splits option.splits)

theorem condition_valid_cases_witness:
  "condition_valid example_parser '''' = Inr True
   \<and> condition_valid example_parser ''y=5'' = Inl Condition_Is_Assignment
   \<and> condition_valid example_parser ''y+=10'' = Inr True
   \<and> condition_valid example_parser ''y++'' = Inr True
   \<and> condition_valid example_parser ''y=='' = Inl (Cannot_Parse_Condition ''y=='')
   \<and> condition_valid example_parser ''a, b'' = Inl Condition_Not_Expression
   \<and> condition_valid example_parser ''if 1, end'' = Inl Condition_Not_Expression"
  using condition_valid_cases [of example_parser "''y=5''"]
        condition_valid_cases [of example_parser "''y+=10''"]
        condition_valid_cases [of example_parser "''y++''"]
        condition_valid_cases [of example_parser "''y==''"]
        condition_valid_cases [of example_parser "''a, b''"]
        condition_valid_cases [of example_parser "''if 1, end''"]
  by (simp add: example_parser_def)

subsection \<open>The line resolver\<close>

declare find_fcn_by_line.simps [simp del] nested_ok.simps [simp del] routines.simps [simp del]

lemma nested_ok_list_iff:
  "nested_ok_list b e xs
     = (\<forall>c\<in>set (kids_of xs). b \<le> beginning_line c \<and> ending_line c \<le> e \<and> nested_ok c)"
  by (induction xs rule: kids_of.induct) auto

lemma routines_list_eq: "routines_list xs = concat (map routines (kids_of xs))"
  by (induction xs rule: kids_of.induct) auto

lemma routines_within:
  "nested_ok f \<Longrightarrow> c \<in> set (routines f) \<Longrightarrow>
     beginning_line f \<le> beginning_line c \<and> ending_line c \<le> ending_line f"
  and "nested_ok_list b e xs \<Longrightarrow> c \<in> set (routines_list xs) \<Longrightarrow>
     b \<le> beginning_line c \<and> ending_line c \<le> e"
proof (induction f and xs arbitrary: and b e rule: routines_routines_list.induct)
  case (1 f)
  then show ?case by (auto simp: nested_ok.simps [of f] routines.simps [of f])
next
  case 2
  then show ?case by simp
next
  case (3 nm rest)
  then show ?case by simp
next
  case (4 nm f rest)
  then show ?case by (auto split: if_splits) 
qed

lemma kids_induct [case_names kids]:
  assumes "\<And>f. (\<And>c. c \<in> set (kids f) \<Longrightarrow> P c) \<Longrightarrow> P f"
  shows "P f"
proof -
  have "P f" and "\<forall>c\<in>set (kids_of xs). P c" for f xs
  proof (induction f and xs rule: routines_routines_list.induct)
    case (1 f)
    then show ?case using assms [of f] by (simp add: kids_def)
  qed auto
  then show ?thesis by simp
qed

lemma kids_user_function: "c \<in> set (kids_of xs) \<Longrightarrow> is_user_function c"
  by (induction xs rule: kids_of.induct) (auto split: if_splits)

lemma routines_unfold: "set (routines f) = insert f (\<Union>c\<in>set (kids f). set (routines c))"
  by (simp add: routines.simps [of f] routines_list_eq kids_def)

lemma pairwise_apartD:
  "pairwise_apart xs \<Longrightarrow> c \<in> set xs \<Longrightarrow> d \<in> set xs \<Longrightarrow> c = d \<or> apart c d"
  by (induction xs) (auto simp: list_all_iff apart_def)

lemma apart_not_both: "apart c d \<Longrightarrow> in_fcn c l \<Longrightarrow> \<not> in_fcn d l"
  by (auto simp: apart_def in_fcn_def)

lemma nested_ok_kids:
  "nested_ok f \<Longrightarrow> c \<in> set (kids f) \<Longrightarrow>
     nested_ok c \<and> beginning_line f \<le> beginning_line c \<and> ending_line c \<le> ending_line f"
  by (simp add: nested_ok.simps [of f] nested_ok_list_iff kids_def)

lemma in_routines_in_fcn:
  "nested_ok c \<Longrightarrow> d \<in> set (routines c) \<Longrightarrow> in_fcn d l \<Longrightarrow> in_fcn c l"
  using routines_within(1) [of c d] by (auto simp: in_fcn_def)

lemma find_fcn_loop_other:
  "find_fcn_loop ((nm, Not_User_Code) # rest) l acc = find_fcn_loop rest l acc"
  "\<not> is_user_function f \<Longrightarrow>
     find_fcn_loop ((nm, User_Fcn f) # rest) l acc = find_fcn_loop rest l acc"
  by (cases acc, simp)+

lemma find_fcn_loop_pass:
  assumes "is_user_function f" and "\<not> (ending_line f < ee \<and> in_fcn f l)"
  shows "find_fcn_loop ((nm, User_Fcn f) # rest) l (rv, nx, ee)
           = find_fcn_loop rest l
               (rv, (if l \<le> beginning_line f \<and> nx = None then Some f else nx), ee)"
proof -
  show ?thesis using assms by (auto simp: in_fcn_def)
qed

lemma find_fcn_loop_enter:
  assumes "is_user_function f" and "ending_line f < ee" and "in_fcn f l"
    and "find_fcn_by_line f l (Some (ending_line f)) = (r, Some e')"
  shows "find_fcn_loop ((nm, User_Fcn f) # rest) l (rv, nx, ee)
           = find_fcn_loop rest l
               (r, (if l \<le> beginning_line f \<and> nx = None then Some f else nx), e')"
proof -
  show ?thesis using assms by (auto simp: in_fcn_def)
qed

declare find_fcn_loop.simps(2) [simp del]

lemma find_fcn_loop_skip:
  "\<forall>c\<in>set (kids_of xs). \<not> in_fcn c l \<Longrightarrow>
     find_fcn_loop xs l (rv, nx, ee)
       = (rv, (case nx of None \<Rightarrow> find (\<lambda>c. l \<le> beginning_line c) (kids_of xs) | Some n \<Rightarrow> Some n), ee)"
proof (induction xs arbitrary: nx rule: kids_of.induct)
  case 1
  then show ?case by (simp split: option.splits)
next
  case (2 nm rest)
  then show ?case by (simp add: find_fcn_loop_other split: option.splits)
next
  case (3 nm f rest)
  show ?case
  proof (cases "is_user_function f")
    case True
    with "3.prems" have nf: "\<not> in_fcn f l" and r: "\<forall>c\<in>set (kids_of rest). \<not> in_fcn c l"
      by auto
    show ?thesis
      using True nf "3.IH"(1) [OF True r] by (simp add: find_fcn_loop_pass split: option.splits)
  next
    case False
    with "3.prems" "3.IH"(2) show ?thesis by (simp add: find_fcn_loop_other split: option.splits)
  qed
qed

lemma find_fcn_loop_found:
  assumes calls: "\<And>c. c \<in> set (kids_of xs) \<Longrightarrow> in_fcn c l \<Longrightarrow>
            \<exists>r. find_fcn_by_line c l (Some (ending_line c)) = (Some r, Some (ending_line r))
                 \<and> innermost_in c l r"
    and apart: "pairwise_apart (kids_of xs)"
    and small: "\<forall>c\<in>set (kids_of xs). ending_line c < INT_MAX"
    and ex: "\<exists>c\<in>set (kids_of xs). in_fcn c l"
  shows "\<exists>c\<in>set (kids_of xs). \<exists>r nx. in_fcn c l \<and> innermost_in c l r
           \<and> find_fcn_loop xs l (None, nx0, INT_MAX) = (Some r, nx, ending_line r)"
  using assms
proof (induction xs arbitrary: nx0 rule: kids_of.induct)
  case 1
  then show ?case by simp
next
  case (2 nm rest)
  then show ?case by (simp add: find_fcn_loop_other)
next
  case (3 nm f rest)
  show ?case
  proof (cases "is_user_function f")
    case False
    with "3.prems" "3.IH"(2) show ?thesis by (simp add: find_fcn_loop_other)
  next
    case fn: True
    show ?thesis
    proof (cases "in_fcn f l")
      case True
      from "3.prems"(1) [of f] fn True obtain r where
        r: "find_fcn_by_line f l (Some (ending_line f)) = (Some r, Some (ending_line r))"
        and inn: "innermost_in f l r" by auto
      from "3.prems"(3) fn have "ending_line f < INT_MAX" by simp
      then have step: "find_fcn_loop ((nm, User_Fcn f) # rest) l (None, nx0, INT_MAX)
          = find_fcn_loop rest l
              (Some r, (if l \<le> beginning_line f \<and> nx0 = None then Some f else nx0), ending_line r)"
        using find_fcn_loop_enter [OF fn _ True r] by simp
      from "3.prems"(2) fn have "\<forall>c\<in>set (kids_of rest). apart f c" by (simp add: list_all_iff)
      then have "\<forall>c\<in>set (kids_of rest). \<not> in_fcn c l"
        using True apart_not_both by blast
      from find_fcn_loop_skip [OF this] step True inn fn show ?thesis by auto
    next
      case False
      have step: "find_fcn_loop ((nm, User_Fcn f) # rest) l (None, nx0, INT_MAX)
          = find_fcn_loop rest l
              (None, (if l \<le> beginning_line f \<and> nx0 = None then Some f else nx0), INT_MAX)"
        using find_fcn_loop_pass [OF fn] False by simp
      have "\<exists>c\<in>set (kids_of rest). \<exists>r nx. in_fcn c l \<and> innermost_in c l r
           \<and> find_fcn_loop rest l
                (None, (if l \<le> beginning_line f \<and> nx0 = None then Some f else nx0), INT_MAX)
              = (Some r, nx, ending_line r)"
        using "3.IH"(1) [OF fn] "3.prems" fn False by auto
      with step fn show ?thesis by auto
    qed
  qed
qed

lemma innermost_in_lift:
  assumes ok: "nested_ok f" and fn: "is_user_function f" and inf: "in_fcn f l"
    and c: "c \<in> set (kids f)" and cl: "in_fcn c l" and inn: "innermost_in c l r"
    and apart: "pairwise_apart (kids f)"
    and kids_ok: "\<forall>d\<in>set (kids f). nested_ok d"
  shows "innermost_in f l r"
proof -
  have r_in: "r \<in> set (routines f)"
    using inn c by (auto simp: innermost_in_def routines_unfold [of f])
  have least: "ending_line r \<le> ending_line d"
    if d: "d \<in> set (routines f)" and dl: "in_fcn d l" and dfn: "is_user_function d" for d
  proof -
    from d consider "d = f" | c' where "c' \<in> set (kids f)" "d \<in> set (routines c')"
      by (auto simp: routines_unfold [of f])
    then show ?thesis
    proof cases
      case 1
      have "ending_line r \<le> ending_line c"
        using inn cl kids_ok c routines_within(1) [of c c] routines_within(1) [of c r]
        by (auto simp: innermost_in_def)
      moreover have "ending_line c \<le> ending_line f"
        using nested_ok_kids [OF ok c] by simp
      ultimately show ?thesis using 1 by simp
    next
      case 2
      have "in_fcn c' l" using in_routines_in_fcn [OF _ 2(2) dl] kids_ok 2(1) by blast
      then have "c' = c" using pairwise_apartD [OF apart c 2(1)] cl apart_not_both by blast
      then show ?thesis using inn 2(2) dl dfn by (auto simp: innermost_in_def)
    qed
  qed
  show ?thesis using inn r_in least by (auto simp: innermost_in_def)
qed

lemma innermost_in_self:
  assumes fn: "is_user_function f" and inf: "in_fcn f l"
    and none: "\<forall>c\<in>set (kids f). \<not> in_fcn c l"
    and kids_ok: "\<forall>d\<in>set (kids f). nested_ok d"
  shows "innermost_in f l f"
proof -
  have "ending_line f \<le> ending_line d" if d: "d \<in> set (routines f)" and dl: "in_fcn d l" for d
  proof -
    from d consider "d = f" | c' where "c' \<in> set (kids f)" "d \<in> set (routines c')"
      by (auto simp: routines_unfold [of f])
    then show ?thesis
    proof cases
      case 1
      then show ?thesis by simp
    next
      case 2
      have "in_fcn c' l" using in_routines_in_fcn [OF _ 2(2) dl] kids_ok 2(1) by blast
      then show ?thesis using none 2(1) by blast
    qed
  qed
  then show ?thesis using fn inf none by (auto simp: innermost_in_def routines_unfold [of f])
qed

lemma find_fcn_by_line_nested:
  "nested_ok f \<Longrightarrow> is_user_function f \<Longrightarrow> in_fcn f l \<Longrightarrow> ending_line f < INT_MAX \<Longrightarrow>
     \<exists>r. find_fcn_by_line f l (Some (ending_line f)) = (Some r, Some (ending_line r))
          \<and> innermost_in f l r"
proof (induction f rule: kids_induct)
  case (kids f)
  note ok = kids.prems(1) and fn = kids.prems(2) and inf = kids.prems(3) and small = kids.prems(4)
  have kid: "nested_ok c \<and> beginning_line f \<le> beginning_line c
             \<and> ending_line c \<le> ending_line f \<and> is_user_function c"
    if "c \<in> set (kids f)" for c
    using nested_ok_kids [OF ok that] kids_user_function that by (auto simp: kids_def)
  have apart: "pairwise_apart (kids f)"
    using ok by (simp add: nested_ok.simps [of f] kids_def)
  have calls: "\<exists>r. find_fcn_by_line c l (Some (ending_line c)) = (Some r, Some (ending_line r))
                 \<and> innermost_in c l r"
    if "c \<in> set (kids_of (subfunctions f))" and "in_fcn c l" for c
    using kids.IH [of c] kid [of c] that small by (auto simp: kids_def)
  show ?case
  proof (cases "\<exists>c\<in>set (kids f). in_fcn c l")
    case True
    have "\<exists>c\<in>set (kids_of (subfunctions f)). \<exists>r nx. in_fcn c l \<and> innermost_in c l r
           \<and> find_fcn_loop (subfunctions f) l (None, None, INT_MAX) = (Some r, nx, ending_line r)"
      using find_fcn_loop_found [of "subfunctions f" l None] calls apart kid small True
      by (fastforce simp: kids_def)
    then obtain c r nx where c: "c \<in> set (kids f)" and cl: "in_fcn c l"
      and inn: "innermost_in c l r"
      and loop: "find_fcn_loop (subfunctions f) l (None, None, INT_MAX) = (Some r, nx, ending_line r)"
      by (auto simp: kids_def)
    have "ending_line r \<le> ending_line c"
      using inn kid [OF c] routines_within(1) [of c r] by (auto simp: innermost_in_def)
    then have le: "ending_line r \<le> ending_line f" using kid [OF c] by simp
    have "find_fcn_by_line f l (Some (ending_line f)) = (Some r, Some (ending_line r))"
      using loop fn le by (auto simp: find_fcn_by_line.simps [of f] Let_def)
    moreover have "innermost_in f l r"
      using innermost_in_lift [OF ok fn inf c cl inn apart] kid by blast
    ultimately show ?thesis by blast
  next
    case False
    then have "find_fcn_loop (subfunctions f) l (None, None, INT_MAX)
        = (None, find (\<lambda>c. l \<le> beginning_line c) (kids f), INT_MAX)"
      using find_fcn_loop_skip [of "subfunctions f" l None None INT_MAX] by (simp add: kids_def)
    then have "find_fcn_by_line f l (Some (ending_line f)) = (Some f, Some (ending_line f))"
      using fn inf small by (auto simp: find_fcn_by_line.simps [of f] Let_def in_fcn_def)
    moreover have "innermost_in f l f"
      using innermost_in_self [OF fn inf] False kid by blast
    ultimately show ?thesis by blast
  qed
qed

lemma top_level_loop:
  assumes ok: "top_ok root"
  shows "if \<exists>c\<in>set (kids root). in_fcn c l
         then \<exists>c\<in>set (kids root). \<exists>r nx. in_fcn c l \<and> innermost_in c l r
                \<and> find_fcn_loop (subfunctions root) l (None, None, INT_MAX)
                    = (Some r, nx, ending_line r)
         else find_fcn_loop (subfunctions root) l (None, None, INT_MAX)
                = (None, find (\<lambda>c. l \<le> beginning_line c) (kids root), INT_MAX)"
proof (cases "\<exists>c\<in>set (kids root). in_fcn c l")
  case True
  have calls: "\<exists>r. find_fcn_by_line c l (Some (ending_line c)) = (Some r, Some (ending_line r))
                 \<and> innermost_in c l r"
    if "c \<in> set (kids_of (subfunctions root))" and "in_fcn c l" for c
    using find_fcn_by_line_nested [of c l] ok that kids_user_function [of c "subfunctions root"]
    by (auto simp: top_ok_def kids_def list_all_iff)
  have "\<exists>c\<in>set (kids_of (subfunctions root)). \<exists>r nx. in_fcn c l \<and> innermost_in c l r
           \<and> find_fcn_loop (subfunctions root) l (None, None, INT_MAX) = (Some r, nx, ending_line r)"
    using find_fcn_loop_found [of "subfunctions root" l None] calls ok True
    by (fastforce simp: top_ok_def kids_def list_all_iff)
  with True show ?thesis by (simp add: kids_def)
next
  case False
  then show ?thesis
    using find_fcn_loop_skip [of "subfunctions root" l None None INT_MAX] by (simp add: kids_def)
qed

lemma innermost_in_top:
  assumes ok: "top_ok root" and c: "c \<in> set (kids root)" and cl: "in_fcn c l"
    and inn: "innermost_in c l r"
  shows "innermost_in root l r"
proof -
  have kids_ok: "\<forall>d\<in>set (kids root). nested_ok d"
    using ok by (simp add: top_ok_def list_all_iff)
  have apart: "pairwise_apart (kids root)" using ok by (simp add: top_ok_def)
  have r_in: "r \<in> set (routines root)"
    using inn c by (auto simp: innermost_in_def routines_unfold [of root])
  have rc: "ending_line r \<le> ending_line c"
    using inn kids_ok c routines_within(1) [of c r] by (auto simp: innermost_in_def)
  have least: "ending_line r \<le> ending_line d"
    if d: "d \<in> set (routines root)" and dl: "in_fcn d l" and dfn: "is_user_function d" for d
  proof -
    from d consider "d = root" | c' where "c' \<in> set (kids root)" "d \<in> set (routines c')"
      by (auto simp: routines_unfold [of root])
    then show ?thesis
    proof cases
      case 1
      then have "ending_line c \<le> ending_line root"
        using ok c cl dl dfn by (auto simp: top_ok_def list_all_iff in_fcn_def)
      then show ?thesis using rc 1 by simp
    next
      case 2
      have "in_fcn c' l" using in_routines_in_fcn [OF _ 2(2) dl] kids_ok 2(1) by blast
      then have "c' = c" using pairwise_apartD [OF apart c 2(1)] cl apart_not_both by blast
      then show ?thesis using inn 2(2) dl dfn by (auto simp: innermost_in_def)
    qed
  qed
  show ?thesis using inn r_in least by (auto simp: innermost_in_def)
qed

text \<open>
  Claim C5. The routines of one source file are laid out as \<open>top_ok\<close> says: routines
  nested in a subroutine lie inside it, the subroutines of one routine do not overlap, no
  subroutine begins before the top-level function, a subroutine of the top-level function
  lies inside it or behind it, and line numbers stay below \<^verbatim>\<open>INT_MAX\<close>. Then, when some
  function of the file contains the requested line, the resolver returns a function \<open>r\<close>
  of the file that contains the line, whose last line is the smallest among all functions
  of the file that contain the line, and none of whose own subroutines contains the line
  (\<open>innermost_in\<close>). When no subroutine of the top-level routine contains the line, the
  resolver returns the top-level routine if it is a function that contains the line, and
  also if it is a script, whatever the line.
\<close>

theorem find_fcn_by_line_innermost:
  assumes ok: "top_ok root"
  shows "((\<exists>c\<in>set (routines root). is_user_function c \<and> in_fcn c l) \<longrightarrow>
            (\<exists>r. fst (find_fcn_by_line root l None) = Some r \<and> innermost_in root l r))
       \<and> ((\<forall>c\<in>set (kids root). \<not> in_fcn c l) \<and> (is_user_function root \<longrightarrow> in_fcn root l) \<longrightarrow>
            fst (find_fcn_by_line root l None) = Some root)"
proof (cases "\<exists>c\<in>set (kids root). in_fcn c l")
  case True
  with top_level_loop [OF ok, of l] obtain c r nx where
    c: "c \<in> set (kids root)" and cl: "in_fcn c l" and inn: "innermost_in c l r"
    and loop: "find_fcn_loop (subfunctions root) l (None, None, INT_MAX) = (Some r, nx, ending_line r)"
    by auto
  have kids_ok: "\<forall>d\<in>set (kids root). nested_ok d"
    using ok by (simp add: top_ok_def list_all_iff)
  have rc: "ending_line r \<le> ending_line c"
    using inn kids_ok c routines_within(1) [of c r] by (auto simp: innermost_in_def)
  have "\<not> (l \<le> ending_line root \<and> ending_line root < ending_line r)" if "is_user_function root"
    using ok c cl rc that by (auto simp: top_ok_def list_all_iff in_fcn_def)
  then have "fst (find_fcn_by_line root l None) = Some r"
    using loop by (auto simp: find_fcn_by_line.simps [of root] Let_def)
  moreover have "innermost_in root l r" by (rule innermost_in_top [OF ok c cl inn])
  ultimately show ?thesis using True by auto
next
  case False
  have kids_ok: "\<forall>d\<in>set (kids root). nested_ok d"
    using ok by (simp add: top_ok_def list_all_iff)
  from False top_level_loop [OF ok, of l]
  have loop: "find_fcn_loop (subfunctions root) l (None, None, INT_MAX)
      = (None, find (\<lambda>c. l \<le> beginning_line c) (kids root), INT_MAX)" by simp
  have root: "fst (find_fcn_by_line root l None) = Some root"
    if "is_user_function root \<longrightarrow> in_fcn root l"
    using loop ok that by (auto simp: find_fcn_by_line.simps [of root] Let_def top_ok_def in_fcn_def)
  have only_root: "d = root" if "d \<in> set (routines root)" and "in_fcn d l" for d
  proof (rule ccontr)
    assume "d \<noteq> root"
    with that obtain c' where c': "c' \<in> set (kids root)" "d \<in> set (routines c')"
      by (auto simp: routines_unfold [of root])
    then have "in_fcn c' l" using in_routines_in_fcn [OF _ c'(2) that(2)] kids_ok by blast
    with False c'(1) show False by blast
  qed
  have "fst (find_fcn_by_line root l None) = Some root \<and> innermost_in root l root"
    if "\<exists>c\<in>set (routines root). is_user_function c \<and> in_fcn c l"
  proof -
    from that only_root have fn: "is_user_function root" and inf: "in_fcn root l" by auto
    show ?thesis using root inf innermost_in_self [OF fn inf] False kids_ok by blast
  qed
  then show ?thesis using root False by blast
qed

text \<open>
  The file of the examples: \<open>f\<close> (lines 3 to 100) with the nested \<open>a\<close> (10 to 50), which
  nests \<open>a1\<close> (20 to 30), and behind \<open>f\<close> the subfunctions \<open>z\<close> (110 to 150) and \<open>b\<close>
  (160 to 200). Line 25 resolves to \<open>a1\<close>, line 5 to \<open>f\<close>, and every line of a script to
  the script.
\<close>

theorem find_fcn_by_line_innermost_witness:
  "top_ok example_f \<and> top_ok example_script
   \<and> fst (find_fcn_by_line example_f 25 None) = Some example_a1
   \<and> innermost_in example_f 25 example_a1
   \<and> fst (find_fcn_by_line example_f 5 None) = Some example_f
   \<and> fst (find_fcn_by_line example_script 7 None) = Some example_script"
proof -
  have ok: "top_ok example_f" and ok_s: "top_ok example_script" by code_simp+
  have ex: "\<exists>c\<in>set (routines example_f). is_user_function c \<and> in_fcn c 25" by code_simp
  have found: "fst (find_fcn_by_line example_f 25 None) = Some example_a1" by code_simp
  from find_fcn_by_line_innermost [OF ok, of 25] ex found
  have inn: "innermost_in example_f 25 example_a1" by auto
  have "\<forall>c\<in>set (kids example_f). \<not> in_fcn c 5" and "in_fcn example_f 5" by code_simp+
  with find_fcn_by_line_innermost [OF ok, of 5]
  have five: "fst (find_fcn_by_line example_f 5 None) = Some example_f" by blast
  have "\<forall>c\<in>set (kids example_script). \<not> in_fcn c 7" and "\<not> is_user_function example_script"
    by code_simp+
  with find_fcn_by_line_innermost [OF ok_s, of 7]
  have "fst (find_fcn_by_line example_script 7 None) = Some example_script" by blast
  with ok ok_s found inn five show ?thesis by simp
qed







text \<open>
  Where the order of the names is not the order of the file, the subroutine returned is the
  first of the table: line 105 of the file \<open>f\<close> lies in no routine, the subfunctions are
  declared in the order \<open>z\<close>, \<open>b\<close>, the next routine behind line 105 is \<open>z\<close> (from line
  110), and the resolver returns \<open>b\<close> (from line 160). The comments of
  \<^verbatim>\<open>find_fcn_by_line\<close> call \<^verbatim>\<open>next_fcn\<close> the first function starting after the line.
\<close>

lemma find_fcn_by_line_table_order:
  "list_all (\<lambda>c. \<not> in_fcn c 105) (routines example_f)
   \<and> subfunction_names example_f = [''z'', ''b'']
   \<and> beginning_line example_z = 110 \<and> beginning_line example_b = 160
   \<and> fst (find_fcn_by_line example_f 105 None) = Some example_b"
  by code_simp

subsection \<open>Adding breakpoints\<close>

declare add_breakpoint_loop.simps [simp del] remove_breakpoint_1_loop.simps [simp del]
  remove_all_breakpoints_loop.simps [simp del]

lemma map_of_intmap_assign: "map_of (intmap_assign k v m) = (map_of m)(k \<mapsto> v)"
  by (induction m) (auto simp: fun_upd_twist)

lemma map_of_intmap_insert:
  "map_of m k = None \<Longrightarrow> map_of (intmap_insert k v m) = (map_of m)(k \<mapsto> v)"
  by (simp add: intmap_insert_def map_of_intmap_assign)

lemma set_breakpoint_Cons:
  "set_breakpoint l c (s # ss) =
     (if l \<le> line s then (line s, Tree_Statement (line s) (expression s) (Some c) # ss)
      else (fst (set_breakpoint l c ss), s # snd (set_breakpoint l c ss)))"
  by (simp split: prod.splits)

lemma tsl_add_breakpoint_Cons:
  "tsl_add_breakpoint ((i, l) # rest) c ss =
     ((i, fst (set_breakpoint l c ss))
        # fst (tsl_add_breakpoint rest c (snd (set_breakpoint l c ss))),
      snd (tsl_add_breakpoint rest c (snd (set_breakpoint l c ss))))"
  by (simp split: prod.splits)

declare set_breakpoint.simps(2) [simp del] tsl_add_breakpoint.simps(2) [simp del]

lemma set_breakpoint_lines: "map line (snd (set_breakpoint l c ss)) = map line ss"
  by (induction ss) (simp_all add: set_breakpoint_Cons)

lemma set_breakpoint_fst_cong:
  "map line ss = map line ss' \<Longrightarrow> fst (set_breakpoint l c ss) = fst (set_breakpoint l c' ss')"
proof (induction ss arbitrary: ss')
  case Nil
  then show ?case by simp
next
  case (Cons s ss)
  then obtain s' rest where "ss' = s' # rest" by (cases ss') auto
  with Cons show ?case by (auto simp: set_breakpoint_Cons)
qed

lemma list_breakpoints_Cons:
  "list_breakpoints (s # ss) = (if bp_cond s \<noteq> None then line s # list_breakpoints ss
                                else list_breakpoints ss)"
  by (simp add: list_breakpoints_def)

lemma set_breakpoint_mono:
  "set (list_breakpoints ss) \<subseteq> set (list_breakpoints (snd (set_breakpoint l c ss)))"
  by (induction ss) (auto simp: set_breakpoint_Cons list_breakpoints_Cons)

lemma set_breakpoint_sets:
  "fst (set_breakpoint l c ss) \<noteq> 0 \<Longrightarrow>
     fst (set_breakpoint l c ss) \<in> set (list_breakpoints (snd (set_breakpoint l c ss)))"
  by (induction ss) (auto simp: set_breakpoint_Cons list_breakpoints_Cons)

lemma tsl_add_breakpoint_lines: "map line (snd (tsl_add_breakpoint m c ss)) = map line ss"
proof (induction m arbitrary: ss)
  case Nil
  then show ?case by simp
next
  case (Cons p m)
  obtain i l where p: "p = (i, l)" by (cases p)
  show ?case
    using Cons [of "snd (set_breakpoint l c ss)"] set_breakpoint_lines [of l c ss]
    by (simp add: p tsl_add_breakpoint_Cons)
qed

lemma tsl_add_breakpoint_mono:
  "set (list_breakpoints ss) \<subseteq> set (list_breakpoints (snd (tsl_add_breakpoint m c ss)))"
proof (induction m arbitrary: ss)
  case Nil
  then show ?case by simp
next
  case (Cons p m)
  obtain i l where p: "p = (i, l)" by (cases p)
  show ?case
    using Cons [of "snd (set_breakpoint l c ss)"] set_breakpoint_mono [of ss l c]
    by (auto simp add: p tsl_add_breakpoint_Cons)
qed

lemma tsl_add_breakpoint_map_of:
  "map_of (fst (tsl_add_breakpoint m c ss)) i
     = map_option (\<lambda>l. fst (set_breakpoint l c ss)) (map_of m i)"
proof (induction m arbitrary: ss)
  case Nil
  then show ?case by simp
next
  case (Cons p m)
  obtain k l where p: "p = (k, l)" by (cases p)
  have "fst (set_breakpoint l' c (snd (set_breakpoint l c ss))) = fst (set_breakpoint l' c ss)" for l'
    by (rule set_breakpoint_fst_cong) (rule set_breakpoint_lines)
  then show ?case
    using Cons [of "snd (set_breakpoint l c ss)"]
    by (simp add: p tsl_add_breakpoint_Cons)
qed

lemma tsl_add_breakpoint_sets:
  "map_of m i = Some l \<Longrightarrow> fst (set_breakpoint l c ss) \<noteq> 0 \<Longrightarrow>
     fst (set_breakpoint l c ss) \<in> set (list_breakpoints (snd (tsl_add_breakpoint m c ss)))"
proof (induction m arbitrary: ss)
  case Nil
  then show ?case by simp
next
  case (Cons p m)
  obtain k l' where p: "p = (k, l')" by (cases p)
  let ?ss1 = "snd (set_breakpoint l' c ss)"
  have same: "fst (set_breakpoint l c ?ss1) = fst (set_breakpoint l c ss)"
    by (rule set_breakpoint_fst_cong) (rule set_breakpoint_lines)
  show ?case
  proof (cases "k = i")
    case True
    with Cons.prems p have "l' = l" by simp
    then have "fst (set_breakpoint l c ss) \<in> set (list_breakpoints ?ss1)"
      using set_breakpoint_sets [of l c ss] Cons.prems(2) by simp
    then show ?thesis
      using tsl_add_breakpoint_mono [of ?ss1 m c] by (auto simp: p tsl_add_breakpoint_Cons)
  next
    case False
    with Cons.prems p have "map_of m i = Some l" by simp
    from Cons.IH [OF this, of ?ss1] same Cons.prems(2) show ?thesis
      by (simp add: p tsl_add_breakpoint_Cons)
  qed
qed

lemma add_breakpoint_1_loop_found:
  "fst (add_breakpoint_1_loop fname m bp) = (\<exists>p\<in>set m. snd p \<noteq> 0)"
  by (induction m) auto

lemma extends_refl: "extends st st"
  by (simp add: extends_def)

lemma extends_trans: "extends st st1 \<Longrightarrow> extends st1 st2 \<Longrightarrow> extends st st2"
  by (fastforce simp: extends_def)

lemma add_breakpoint_1_Some:
  "body fcn = Some h \<Longrightarrow>
     add_breakpoint_1 fcn fname m c r0 st =
       (fst (add_breakpoint_1_loop fname (fst (tsl_add_breakpoint m c (stmt_lists st h))) (m_bp_set st)),
        fst (tsl_add_breakpoint m c (stmt_lists st h)),
        st\<lparr>stmt_lists := (stmt_lists st)(h := snd (tsl_add_breakpoint m c (stmt_lists st h))),
           m_bp_set := snd (add_breakpoint_1_loop fname
                              (fst (tsl_add_breakpoint m c (stmt_lists st h))) (m_bp_set st))\<rparr>)"
  by (simp add: add_breakpoint_1_def split: prod.splits)

lemma add_breakpoint_1_None:
  "body fcn = None \<Longrightarrow> add_breakpoint_1 fcn fname m c r0 st = (False, r0, st)"
  by (simp add: add_breakpoint_1_def)

lemma add_breakpoint_1_extends:
  "extends st (snd (snd (add_breakpoint_1 fcn fname m c r0 st)))"
proof (cases "body fcn")
  case None
  then show ?thesis by (simp add: add_breakpoint_1_None extends_refl)
next
  case (Some h)
  then show ?thesis
    using tsl_add_breakpoint_lines [of m c "stmt_lists st h"]
      tsl_add_breakpoint_mono [of "stmt_lists st h" m c]
    by (auto simp: add_breakpoint_1_Some extends_def)
qed

lemma map_of_intmap_insert_other: "j \<noteq> k \<Longrightarrow> map_of (intmap_insert k v m) j = map_of m j"
  by (simp add: intmap_insert_def map_of_intmap_assign)

lemma extends_fst_set_breakpoint:
  "extends st st' \<Longrightarrow>
     fst (set_breakpoint l c (stmt_lists st' h)) = fst (set_breakpoint l c (stmt_lists st h))"
  by (rule set_breakpoint_fst_cong) (simp add: extends_def)

lemma add_breakpoint_loop_step:
  assumes "i < len"
  shows "\<exists>retval2 st2.
           add_breakpoint_loop main_fcn fname m c len i retval st
             = add_breakpoint_loop main_fcn fname m c len (i + 1) retval2 st2
         \<and> extends st st2
         \<and> (\<forall>j. j \<noteq> i \<longrightarrow> map_of retval2 j = map_of retval j)
         \<and> (map_of retval i = None \<longrightarrow>
              (\<forall>l. map_of m i = Some l \<and> fst (find_fcn_by_line main_fcn l None) = None \<longrightarrow>
                 map_of retval2 i = None)
            \<and> (\<forall>l dbg h. map_of m i = Some l \<and> fst (find_fcn_by_line main_fcn l None) = Some dbg
                   \<and> body dbg = Some h \<and> fst (set_breakpoint l c (stmt_lists st h)) \<noteq> 0 \<longrightarrow>
                 map_of retval2 i = Some (fst (set_breakpoint l c (stmt_lists st h)))
                 \<and> fst (set_breakpoint l c (stmt_lists st h))
                     \<in> set (list_breakpoints (stmt_lists st2 h))))"
proof (cases "map_of m i")
  case None
  then show ?thesis
    using assms by (subst add_breakpoint_loop.simps) (auto intro!: exI simp: extends_refl)
next
  case (Some l)
  note line_i = this
  show ?thesis
  proof (cases "fst (find_fcn_by_line main_fcn l None)")
    case None
    then show ?thesis
      using assms line_i
      by (subst add_breakpoint_loop.simps) (auto intro!: exI simp: extends_refl)
  next
    case (Some dbg)
    note found_fcn = this
    show ?thesis
    proof (cases "body dbg")
      case None
      then show ?thesis
        using assms line_i found_fcn
        by (subst add_breakpoint_loop.simps)
           (auto intro!: exI simp: extends_refl add_breakpoint_1_None)
    next
      case (Some h)
      let ?r = "tsl_add_breakpoint m c (stmt_lists st h)"
      let ?a = "fst (set_breakpoint l c (stmt_lists st h))"
      let ?st1 = "snd (snd (add_breakpoint_1 dbg fname m c [] st))"
      have one: "map_of (fst ?r) i = Some ?a"
        using line_i by (simp add: tsl_add_breakpoint_map_of)
      have ext: "extends st ?st1" by (rule add_breakpoint_1_extends)
      have st1: "stmt_lists ?st1 h = snd ?r" by (simp add: add_breakpoint_1_Some [OF Some])
      show ?thesis
      proof (cases "fst (add_breakpoint_1_loop fname (fst ?r) (m_bp_set st))")
        case True
        have eq: "add_breakpoint_loop main_fcn fname m c len i retval st
            = add_breakpoint_loop main_fcn fname m c len (i + 1) (intmap_insert i ?a retval) ?st1"
          using assms line_i found_fcn True one
          by (subst add_breakpoint_loop.simps) (simp add: add_breakpoint_1_Some [OF Some])
        have "?a \<noteq> 0 \<Longrightarrow> ?a \<in> set (list_breakpoints (stmt_lists ?st1 h))"
          using tsl_add_breakpoint_sets [OF line_i, of c "stmt_lists st h"] st1 by simp
        then show ?thesis
          using eq ext line_i found_fcn Some
          by (intro exI [of _ "intmap_insert i ?a retval"] exI [of _ ?st1])
             (auto simp: map_of_intmap_insert_other map_of_intmap_insert)
      next
        case False
        have eq: "add_breakpoint_loop main_fcn fname m c len i retval st
            = add_breakpoint_loop main_fcn fname m c len (i + 1) retval ?st1"
          using assms line_i found_fcn False
          by (subst add_breakpoint_loop.simps) (simp add: add_breakpoint_1_Some [OF Some])
        have "?a = 0"
          using False map_of_SomeD [OF one] by (force simp: add_breakpoint_1_loop_found)
        then show ?thesis
          using eq ext line_i found_fcn Some
          by (intro exI [of _ retval] exI [of _ ?st1]) auto
      qed
    qed
  qed
qed

lemma add_breakpoint_loop_result:
  assumes "\<forall>j\<ge>i. map_of retval j = None"
  shows "\<exists>retval' st'.
           add_breakpoint_loop main_fcn fname m c len i retval st = (Inr retval', st')
         \<and> extends st st'
         \<and> (\<forall>j. j < i \<or> len \<le> j \<longrightarrow> map_of retval' j = map_of retval j)
         \<and> (\<forall>j l. i \<le> j \<and> j < len \<and> map_of m j = Some l
                \<and> fst (find_fcn_by_line main_fcn l None) = None \<longrightarrow> map_of retval' j = None)
         \<and> (\<forall>j l dbg h. i \<le> j \<and> j < len \<and> map_of m j = Some l
                \<and> fst (find_fcn_by_line main_fcn l None) = Some dbg \<and> body dbg = Some h
                \<and> fst (set_breakpoint l c (stmt_lists st h)) \<noteq> 0 \<longrightarrow>
              map_of retval' j = Some (fst (set_breakpoint l c (stmt_lists st h)))
              \<and> fst (set_breakpoint l c (stmt_lists st h))
                  \<in> set (list_breakpoints (stmt_lists st' h)))"
  using assms
proof (induction "nat (len - i)" arbitrary: i retval st)
  case 0
  then have "\<not> i < len" by simp
  then show ?case
    by (subst add_breakpoint_loop.simps) (auto simp: extends_refl)
next
  case (Suc n)
  then have lt: "i < len" by simp
  from add_breakpoint_loop_step [OF lt, of main_fcn fname m c retval st]
  obtain retval2 st2 where
    eq: "add_breakpoint_loop main_fcn fname m c len i retval st
           = add_breakpoint_loop main_fcn fname m c len (i + 1) retval2 st2"
    and ext: "extends st st2"
    and other: "\<forall>j. j \<noteq> i \<longrightarrow> map_of retval2 j = map_of retval j"
    and none: "\<forall>l. map_of m i = Some l \<and> fst (find_fcn_by_line main_fcn l None) = None \<longrightarrow>
                 map_of retval2 i = None"
    and some: "\<forall>l dbg h. map_of m i = Some l \<and> fst (find_fcn_by_line main_fcn l None) = Some dbg
                   \<and> body dbg = Some h \<and> fst (set_breakpoint l c (stmt_lists st h)) \<noteq> 0 \<longrightarrow>
                 map_of retval2 i = Some (fst (set_breakpoint l c (stmt_lists st h)))
                 \<and> fst (set_breakpoint l c (stmt_lists st h))
                     \<in> set (list_breakpoints (stmt_lists st2 h))"
    using Suc.prems by auto
  have n: "n = nat (len - (i + 1))" using Suc.hyps(2) by simp
  have empty2: "\<forall>j\<ge>i + 1. map_of retval2 j = None" using other Suc.prems by simp
  from Suc.hyps(1) [OF n empty2, of st2]
  obtain retval' st' where
    res: "add_breakpoint_loop main_fcn fname m c len (i + 1) retval2 st2 = (Inr retval', st')"
    and ext': "extends st2 st'"
    and keep: "\<forall>j. j < i + 1 \<or> len \<le> j \<longrightarrow> map_of retval' j = map_of retval2 j"
    and none': "\<forall>j l. i + 1 \<le> j \<and> j < len \<and> map_of m j = Some l
                \<and> fst (find_fcn_by_line main_fcn l None) = None \<longrightarrow> map_of retval' j = None"
    and some': "\<forall>j l dbg h. i + 1 \<le> j \<and> j < len \<and> map_of m j = Some l
                \<and> fst (find_fcn_by_line main_fcn l None) = Some dbg \<and> body dbg = Some h
                \<and> fst (set_breakpoint l c (stmt_lists st2 h)) \<noteq> 0 \<longrightarrow>
              map_of retval' j = Some (fst (set_breakpoint l c (stmt_lists st2 h)))
              \<and> fst (set_breakpoint l c (stmt_lists st2 h))
                  \<in> set (list_breakpoints (stmt_lists st' h))"
    by blast
  have same: "fst (set_breakpoint l c (stmt_lists st2 h)) = fst (set_breakpoint l c (stmt_lists st h))"
    for l h
    by (rule extends_fst_set_breakpoint [OF ext])
  have sub: "set (list_breakpoints (stmt_lists st2 h)) \<subseteq> set (list_breakpoints (stmt_lists st' h))"
    for h
    using ext' by (simp add: extends_def)
  have 1: "\<forall>j. j < i \<or> len \<le> j \<longrightarrow> map_of retval' j = map_of retval j"
    using keep other lt by auto
  have 2: "map_of retval' j = None"
    if "i \<le> j" "j < len" "map_of m j = Some l" "fst (find_fcn_by_line main_fcn l None) = None"
    for j l
  proof (cases "j = i")
    case True
    then show ?thesis using keep none that by auto
  next
    case False
    then show ?thesis using none' that by auto
  qed
  have 3: "map_of retval' j = Some (fst (set_breakpoint l c (stmt_lists st h)))
           \<and> fst (set_breakpoint l c (stmt_lists st h)) \<in> set (list_breakpoints (stmt_lists st' h))"
    if "i \<le> j" "j < len" "map_of m j = Some l"
      "fst (find_fcn_by_line main_fcn l None) = Some dbg" "body dbg = Some h"
      "fst (set_breakpoint l c (stmt_lists st h)) \<noteq> 0"
    for j l dbg h
  proof (cases "j = i")
    case True
    then show ?thesis using keep some that sub by fastforce
  next
    case False
    then have "i + 1 \<le> j" using that(1) by simp
    then show ?thesis using some' that same by fastforce
  qed
  have r: "add_breakpoint_loop main_fcn fname m c len i retval st = (Inr retval', st')"
    using eq res by simp
  show ?case
  proof (intro exI conjI)
    show "add_breakpoint_loop main_fcn fname m c len i retval st = (Inr retval', st')"
      by (rule r)
    show "extends st st'" by (rule extends_trans [OF ext ext'])
    show "\<forall>j. j < i \<or> len \<le> j \<longrightarrow> map_of retval' j = map_of retval j" by (rule 1)
    show "\<forall>j l. i \<le> j \<and> j < len \<and> map_of m j = Some l
                \<and> fst (find_fcn_by_line main_fcn l None) = None \<longrightarrow> map_of retval' j = None"
      using 2 by blast
    show "\<forall>j l dbg h. i \<le> j \<and> j < len \<and> map_of m j = Some l
                \<and> fst (find_fcn_by_line main_fcn l None) = Some dbg \<and> body dbg = Some h
                \<and> fst (set_breakpoint l c (stmt_lists st h)) \<noteq> 0 \<longrightarrow>
              map_of retval' j = Some (fst (set_breakpoint l c (stmt_lists st h)))
              \<and> fst (set_breakpoint l c (stmt_lists st h))
                  \<in> set (list_breakpoints (stmt_lists st' h))"
      using 3 by blast
  qed
qed

text \<open>
  Claim C10. Let the name resolve and the condition be valid, and let the line requested
  under index \<open>i\<close> resolve to no routine. Then \<^verbatim>\<open>add_breakpoint\<close> returns without an
  error, the returned map has no entry for \<open>i\<close>, and every other requested line is still
  processed: if the line under index \<open>j\<close> resolves to a routine with a body in which a
  statement stands at or behind the line, then the returned map gives for \<open>j\<close> the line of
  that statement, and the statement list of the routine has a breakpoint on that line
  afterwards.
\<close>

theorem add_breakpoint_unresolved_line_omitted:
  assumes "get_user_code fname class_name = Some main_fcn"
    and "condition_valid parser_run condition = Inr ok"
    and "0 \<le> i" and "i < int (length lines)" and "map_of lines i = Some lineno"
    and "fst (find_fcn_by_line main_fcn lineno None) = None"
  shows "\<exists>retval st'.
           add_breakpoint get_user_code parser_run fname class_name lines condition st
             = (Inr retval, st')
         \<and> map_of retval i = None
         \<and> (\<forall>j l dbg h. 0 \<le> j \<and> j < int (length lines) \<and> map_of lines j = Some l
                \<and> fst (find_fcn_by_line main_fcn l None) = Some dbg \<and> body dbg = Some h
                \<and> fst (set_breakpoint l condition (stmt_lists st h)) \<noteq> 0 \<longrightarrow>
              map_of retval j = Some (fst (set_breakpoint l condition (stmt_lists st h)))
              \<and> fst (set_breakpoint l condition (stmt_lists st h))
                  \<in> set (list_breakpoints (stmt_lists st' h)))"
proof -
  from add_breakpoint_loop_result [of 0 "[]" main_fcn fname lines condition "int (length lines)" st]
  obtain retval st' where
    res: "add_breakpoint_loop main_fcn fname lines condition (int (length lines)) 0 [] st
            = (Inr retval, st')"
    and none: "\<forall>j l. 0 \<le> j \<and> j < int (length lines) \<and> map_of lines j = Some l
                \<and> fst (find_fcn_by_line main_fcn l None) = None \<longrightarrow> map_of retval j = None"
    and some: "\<forall>j l dbg h. 0 \<le> j \<and> j < int (length lines) \<and> map_of lines j = Some l
                \<and> fst (find_fcn_by_line main_fcn l None) = Some dbg \<and> body dbg = Some h
                \<and> fst (set_breakpoint l condition (stmt_lists st h)) \<noteq> 0 \<longrightarrow>
              map_of retval j = Some (fst (set_breakpoint l condition (stmt_lists st h)))
              \<and> fst (set_breakpoint l condition (stmt_lists st h))
                  \<in> set (list_breakpoints (stmt_lists st' h))"
    by auto
  have "add_breakpoint get_user_code parser_run fname class_name lines condition st
          = (Inr retval, st')"
    using assms(1,2) res by (simp add: add_breakpoint_def)
  moreover have "map_of retval i = None" using none assms(3-6) by blast
  ultimately show ?thesis using some by blast
qed

text \<open>Lines 5, 300 and 25 of the example: line 300 lies behind the last routine and is left
  out, lines 5 and 25 are set in \<open>f\<close> and in \<open>a1\<close>.\<close>

theorem add_breakpoint_unresolved_line_omitted_witness:
  "fst (find_fcn_by_line example_f 300 None) = None
   \<and> fst (add_breakpoint example_resolver example_parser ''f'' '''' [(0, 5), (1, 300), (2, 25)] ''''
           example_state) = Inr [(0, 5), (2, 25)]
   \<and> 5 \<in> set (list_breakpoints (stmt_lists (snd (add_breakpoint example_resolver example_parser
           ''f'' '''' [(0, 5), (1, 300), (2, 25)] '''' example_state)) 0))
   \<and> 25 \<in> set (list_breakpoints (stmt_lists (snd (add_breakpoint example_resolver example_parser
           ''f'' '''' [(0, 5), (1, 300), (2, 25)] '''' example_state)) 2))"
proof -
  let ?lines = "[(0, 5), (1, 300), (2, 25)] :: intmap"
  let ?run = "add_breakpoint example_resolver example_parser ''f'' '''' ?lines '''' example_state"
  have h1: "example_resolver ''f'' '''' = Some example_f" by code_simp
  have h2: "condition_valid example_parser '''' = Inr True" by code_simp
  have h3: "(0::int) \<le> 1" "1 < int (length ?lines)" "map_of ?lines 1 = Some 300" by simp_all
  have h4: "fst (find_fcn_by_line example_f 300 None) = None" by code_simp
  from add_breakpoint_unresolved_line_omitted
         [of example_resolver "''f''" "''''" example_f example_parser "''''" True 1 ?lines 300
             example_state, OF h1 h2 h3 h4]
  obtain retval st' where run: "?run = (Inr retval, st')"
    and omitted: "map_of retval 1 = None"
    and others: "\<forall>j l dbg h. 0 \<le> j \<and> j < int (length ?lines) \<and> map_of ?lines j = Some l
                \<and> fst (find_fcn_by_line example_f l None) = Some dbg \<and> body dbg = Some h
                \<and> fst (set_breakpoint l '''' (stmt_lists example_state h)) \<noteq> 0 \<longrightarrow>
              map_of retval j = Some (fst (set_breakpoint l '''' (stmt_lists example_state h)))
              \<and> fst (set_breakpoint l '''' (stmt_lists example_state h))
                  \<in> set (list_breakpoints (stmt_lists st' h))"
    by blast
  have a: "fst (find_fcn_by_line example_f 5 None) = Some example_f" "body example_f = Some 0"
    "fst (set_breakpoint 5 '''' (stmt_lists example_state 0)) = 5" by code_simp+
  have b: "fst (find_fcn_by_line example_f 25 None) = Some example_a1" "body example_a1 = Some 2"
    "fst (set_breakpoint 25 '''' (stmt_lists example_state 2)) = 25" by code_simp+
  from others [rule_format, of 0 5 example_f 0] a
  have "5 \<in> set (list_breakpoints (stmt_lists st' 0))" by simp
  moreover from others [rule_format, of 2 25 example_a1 2] b
  have "25 \<in> set (list_breakpoints (stmt_lists st' 2))" by simp
  moreover have "fst ?run = Inr [(0, 5), (2, 25)]" by code_simp
  ultimately show ?thesis using h4 run by simp
qed

subsection \<open>Removing breakpoints\<close>

text \<open>What \<^verbatim>\<open>remove_breakpoint_1\<close> returns for a routine with a body is the length of
  the list of breakpoints read after the removal.\<close>

lemma remove_breakpoint_1_counts_remaining:
  assumes "body fcn = Some h"
  shows "fst (remove_breakpoint_1 fcn fname m st)
           = int (length (list_breakpoints (stmt_lists (snd (remove_breakpoint_1 fcn fname m st)) h)))"
  using assms by (simp add: remove_breakpoint_1_def Let_def)

text \<open>The only name \<^verbatim>\<open>add_breakpoint_1\<close> puts into \<open>m_bp_set\<close> is the name it was called
  with, cut at the first \<open>>\<close>; the names of the subfunctions are never entered.\<close>

lemma add_breakpoint_1_loop_set:
  "snd (add_breakpoint_1_loop fname m bp)
     = (if fst (add_breakpoint_1_loop fname m bp) then set_insert (normalized_name fname) bp else bp)"
  by (induction m) auto

lemma normalized_name_plain: "CHR ''>'' \<notin> set (normalized_name fname)"
  by (auto simp: normalized_name_def dest: set_takeWhileD)

lemma add_breakpoint_1_bp_set:
  "set (m_bp_set (snd (snd (add_breakpoint_1 fcn fname m c r0 st))))
     = (if fst (add_breakpoint_1 fcn fname m c r0 st)
        then insert (normalized_name fname) (set (m_bp_set st)) else set (m_bp_set st))"
proof (cases "body fcn")
  case None
  then show ?thesis by (simp add: add_breakpoint_1_None)
next
  case (Some h)
  then show ?thesis
    by (auto simp: add_breakpoint_1_Some add_breakpoint_1_loop_set set_insert_def set_insort_key)
qed

text \<open>
  Claim C2 does not hold of the code. With breakpoints on the lines 4, 5 and 8 of \<open>f\<close>,
  \<^verbatim>\<open>remove_breakpoint\<close> for line 4 removes one breakpoint and returns 2: the value
  is \<^verbatim>\<open>results.length ()\<close> after the list was read again, the number of breakpoints
  that are left in the routines that were scanned.
\<close>

theorem remove_breakpoint_returns_remaining:
  "list_breakpoints (stmt_lists example_state_three 0) = [4, 5, 8]
   \<and> fst (remove_breakpoint example_resolver ''f'' [(0, 4)] example_state_three) = Inr 2
   \<and> list_breakpoints
       (stmt_lists (snd (remove_breakpoint example_resolver ''f'' [(0, 4)] example_state_three)) 0)
       = [5, 8]"
  by code_simp

text \<open>
  Claim C3 does not hold of the code. After \<^verbatim>\<open>add_breakpoint\<close> for the lines 111 (in
  the subfunction \<open>z\<close>) and 161 (in the subfunction \<open>b\<close>) of the file \<open>f\<close>, \<open>m_bp_set\<close>
  holds \<open>f\<close>. \<^verbatim>\<open>remove_breakpoint\<close> for line 161 leaves \<open>b\<close> without a breakpoint, and
  \<^verbatim>\<open>remove_breakpoint_1\<close>, called for \<open>b\<close>, erases the name \<open>f\<close> from the set, while
  \<open>z\<close>, a routine of the same file, still holds its breakpoint. (No statement of \<open>z\<close>
  is at or behind line 161, so the sweep over \<open>z\<close> finds nothing to delete there.)
\<close>

theorem remove_breakpoint_drops_file_name:
  "m_bp_set example_state_sub = [''f'']
   \<and> list_breakpoints (stmt_lists example_state_sub 0) = []
   \<and> list_breakpoints (stmt_lists example_state_sub 3) = [111]
   \<and> list_breakpoints (stmt_lists example_state_sub 4) = [161]
   \<and> m_bp_set (snd (remove_breakpoint example_resolver ''f'' [(0, 161)] example_state_sub)) = []
   \<and> list_breakpoints
       (stmt_lists (snd (remove_breakpoint example_resolver ''f'' [(0, 161)] example_state_sub)) 3)
       = [111]
   \<and> list_breakpoints
       (stmt_lists (snd (remove_breakpoint example_resolver ''f'' [(0, 161)] example_state_sub)) 4)
       = []"
  by code_simp

subsection \<open>Removing all breakpoints\<close>

lemma remove_all_breakpoints_in_file_resolved:
  assumes "get_user_code fname '''' = Some c" and "body c = Some h"
  shows "fst (remove_all_breakpoints_in_file get_user_code fname silent st)
           = Inr (fst (tsl_remove_all_breakpoints (stmt_lists st h)))"
    and "m_bp_set (snd (remove_all_breakpoints_in_file get_user_code fname silent st))
           = removeAll fname (m_bp_set st)"
  using assms
  by (auto simp: remove_all_breakpoints_in_file_def set_erase_def Let_def split: prod.splits)

lemma set_next_head:
  assumes "sorted (f # rest)" and "distinct (f # rest)"
  shows "set_next (f # rest) f = set_begin rest"
proof (cases rest)
  case Nil
  then show ?thesis by (simp add: set_next_def set_begin_def)
next
  case (Cons g more)
  with assms have "f < g" by auto
  then show ?thesis using Cons by (simp add: set_next_def set_begin_def)
qed

lemma remove_all_breakpoints_loop_empties:
  assumes "sorted (m_bp_set st)" and "distinct (m_bp_set st)"
    and "\<forall>f\<in>set (m_bp_set st). \<exists>c h. get_user_code f '''' = Some c \<and> body c = Some h"
  shows "fst (remove_all_breakpoints_loop get_user_code (set_begin (m_bp_set st)) st) = Inr ()
       \<and> m_bp_set (snd (remove_all_breakpoints_loop get_user_code (set_begin (m_bp_set st)) st)) = []"
  using assms
proof (induction "length (m_bp_set st)" arbitrary: st)
  case 0
  then show ?case
    by (subst (1 2) remove_all_breakpoints_loop.simps) (simp add: set_begin_def)
next
  case (Suc n)
  then obtain f rest where set: "m_bp_set st = f # rest" by (cases "m_bp_set st") auto
  with Suc.prems(3) obtain c h where c: "get_user_code f '''' = Some c" "body c = Some h"
    by auto
  obtain res st1 where r: "remove_all_breakpoints_in_file get_user_code f False st = (res, st1)"
    by (cases "remove_all_breakpoints_in_file get_user_code f False st")
  have ok: "res = Inr (fst (tsl_remove_all_breakpoints (stmt_lists st h)))"
    using remove_all_breakpoints_in_file_resolved(1) [of get_user_code f c h False st] c r by simp
  have "f \<notin> set rest" using Suc.prems(2) set by simp
  then have rest: "m_bp_set st1 = rest"
    using remove_all_breakpoints_in_file_resolved(2) [of get_user_code f c h False st] c set r
    by simp
  have nxt: "set_next (m_bp_set st) f = set_begin rest"
    using set_next_head [of f rest] Suc.prems(1,2) set by simp
  have step: "remove_all_breakpoints_loop get_user_code (set_begin (m_bp_set st)) st
      = remove_all_breakpoints_loop get_user_code (set_begin (m_bp_set st1)) st1"
    using r ok rest nxt set
    by (subst remove_all_breakpoints_loop.simps) (simp add: set_begin_def)
  have "n = length (m_bp_set st1)" using Suc.hyps(2) set rest by simp
  moreover have "sorted (m_bp_set st1)" "distinct (m_bp_set st1)"
    using Suc.prems(1,2) set rest by simp_all
  moreover have "\<forall>g\<in>set (m_bp_set st1). \<exists>c h. get_user_code g [] = Some c \<and> body c = Some h"
    using Suc.prems(3) set rest by simp
  ultimately show ?case using Suc.hyps(1) [of st1] step by simp
qed

text \<open>
  \<open>remove_all_breakpoints_loop\<close> is a total function: the loop ends from every state,
  although every step erases from the set that is walked. If every name of \<open>m_bp_set\<close>
  resolves, with the empty class name, to a routine with a body, then
  \<^verbatim>\<open>remove_all_breakpoints\<close> returns without an error and \<open>m_bp_set\<close> is empty
  afterwards. (\<open>sorted\<close> and \<open>distinct\<close> say that \<open>m_bp_set\<close> is a set.)
\<close>

lemma remove_all_breakpoints_empties:
  assumes "sorted (m_bp_set st)" and "distinct (m_bp_set st)"
    and "\<forall>f\<in>set (m_bp_set st). \<exists>c h. get_user_code f '''' = Some c \<and> body c = Some h"
  shows "fst (remove_all_breakpoints get_user_code st) = Inr ()
       \<and> m_bp_set (snd (remove_all_breakpoints get_user_code st)) = []"
  using remove_all_breakpoints_loop_empties [of st get_user_code] assms
  by (simp add: remove_all_breakpoints_def)

text \<open>After \<^verbatim>\<open>add_breakpoint\<close> for line 5 of the file \<open>f\<close> and for the lines 6 and 111 of
  the file \<open>g\<close> the set holds \<open>f\<close> and \<open>g\<close>; \<^verbatim>\<open>remove_all_breakpoints\<close> erases \<open>f\<close>, goes
  on to \<open>g\<close> and leaves the set empty.\<close>

lemma remove_all_breakpoints_empties_example:
  "m_bp_set example_state_two = [''f'', ''g'']
   \<and> fst (remove_all_breakpoints example_resolver example_state_two) = Inr ()
   \<and> m_bp_set (snd (remove_all_breakpoints example_resolver example_state_two)) = []"
proof -
  have set: "m_bp_set example_state_two = [''f'', ''g'']" by code_simp
  have "example_resolver ''f'' '''' = Some example_f" "body example_f = Some 0"
    "example_resolver ''g'' '''' = Some example_g" "body example_g = Some 6" by code_simp+
  then have "\<forall>f\<in>set (m_bp_set example_state_two).
               \<exists>c h. example_resolver f '''' = Some c \<and> body c = Some h"
    using set by simp
  moreover have "sorted (m_bp_set example_state_two)" "distinct (m_bp_set example_state_two)"
    unfolding set by code_simp+
  ultimately show ?thesis
    using remove_all_breakpoints_empties [of example_state_two example_resolver] set by simp
qed

text \<open>
  Claim C9 does not hold of the code. A breakpoint on line 2 of the method \<open>m\<close> of the
  class \<open>cls\<close> is added under the name \<open>m\<close>, which \<^verbatim>\<open>add_breakpoint\<close> resolves with the
  class name. \<^verbatim>\<open>remove_all_breakpoints\<close> hands the name to
  \<^verbatim>\<open>remove_all_breakpoints_in_file\<close>, which resolves it without the class name, does not
  find it and raises an error, since \<^verbatim>\<open>silent\<close> is false: the call ends, but the set
  still holds \<open>m\<close> afterwards, and the method still holds its breakpoint.
\<close>

theorem remove_all_breakpoints_class_method_stays:
  "m_bp_set example_state_method = [''m'']
   \<and> list_breakpoints (stmt_lists example_state_method 9) = [2]
   \<and> fst (remove_all_breakpoints example_resolver example_state_method)
       = Inl (Remove_All_Unable_To_Find ''m'')
   \<and> m_bp_set (snd (remove_all_breakpoints example_resolver example_state_method)) = [''m'']
   \<and> list_breakpoints
       (stmt_lists (snd (remove_all_breakpoints example_resolver example_state_method)) 9) = [2]"
  by code_simp

subsection \<open>The command parser\<close>

declare parse_loop.simps [simp del]

text \<open>\<^verbatim>\<open>atoi\<close> at some tokens: a number, a number behind white space and a sign with
  letters behind it, no number, and numbers that do not fit an \<^verbatim>\<open>int\<close>.\<close>

lemma atoi_examples:
  "atoi ''42'' = 42 \<and> atoi '' -12abc'' = - 12 \<and> atoi ''abc'' = 0
   \<and> atoi ''2147483647'' = INT_MAX \<and> atoi ''2147483648'' = - 2147483648
   \<and> atoi ''4294967297'' = 1 \<and> atoi ''99999999999999999999'' = - 1"
  by code_simp

text \<open>What the loop of the parser does reject: a name where a name, a line or (by the flag
  \<open>seen_if\<close>, which is never set) a condition was seen, and a line where a line was seen.\<close>

lemma parse_loop_rejects_in:
  assumes "p_pos v < length args" and "classify args (p_pos v) = Inr (dbstop_in, pos)"
    and "pos < length args" and "string_value (args ! pos) = Some name"
    and "p_seen_in v \<or> p_seen_at v \<or> p_seen_if v"
  shows "parse_loop who args in_debug_repl debug_fcn v st
           = (Inl (if p_seen_in v then Too_Many_Function_Names name else Name_Must_Come_First), st)"
  using assms by (subst parse_loop.simps) (auto simp: parse_in_def)

lemma parse_loop_rejects_at:
  assumes "p_pos v < length args" and "classify args (p_pos v) = Inr (dbstop_at, pos)"
    and "pos < length args" and "string_value (args ! pos) = Some s"
    and "p_seen_at v \<or> p_seen_if v"
  shows "parse_loop who args in_debug_repl debug_fcn v st
           = (Inl (if p_seen_at v then Only_One_At_Clause else Line_Must_Come_Before_If), st)"
  using assms by (subst parse_loop.simps) (auto simp: parse_at_def)

text \<open>What it does not reject: behind \<^verbatim>\<open>if interrupt\<close> the position is set to the number
  of arguments, so whatever follows is never read.\<close>

lemma parse_if_interrupt_ignores_rest:
  "parse_dbfunction_params who (ov_string ''if'' # ov_string ''interrupt'' # rest)
       in_debug_repl debug_fcn cond0 st
     = (Inr ('''', '''', [], cond0), st\<lparr>Vdebug_on_interrupt := (who = ''dbstop'')\<rparr>)"
  by (simp add: parse_dbfunction_params_def parse_loop.simps classify_def parse_if_def
        ov_string_def Let_def)

text \<open>
  Claim C7 does not hold of the code. \<^verbatim>\<open>dbstop if interrupt in foo\<close> has an
  \<^verbatim>\<open>in\<close> clause behind an \<^verbatim>\<open>if\<close> clause. The parser switches the interrupt flag on
  and returns without an error; the two last arguments are dropped. (For
  \<^verbatim>\<open>dbstop if error in foo\<close> the sibling branch raises an error.)
\<close>

theorem parse_accepts_in_after_if_interrupt:
  "fst (parse_dbfunction_params ''dbstop''
          [ov_string ''if'', ov_string ''interrupt'', ov_string ''in'', ov_string ''foo'']
          False '''' '''' initial_state) = Inr ('''', '''', [], '''')
   \<and> Vdebug_on_interrupt (snd (parse_dbfunction_params ''dbstop''
          [ov_string ''if'', ov_string ''interrupt'', ov_string ''in'', ov_string ''foo'']
          False '''' '''' initial_state))
   \<and> fst (parse_dbfunction_params ''dbstop''
          [ov_string ''if'', ov_string ''error'', ov_string ''in'', ov_string ''foo'']
          False '''' '''' initial_state) = Inl ID_Must_Be_Single_String"
  by code_simp

end
